theory Spec2Isabelle
  imports Complex_Main "HOL-Library.List_Lexorder" "HOL-Library.Char_ord"
begin

section \<open>Data model of the IGM guesses tool\<close>

text \<open>
  The embedding follows \<^verbatim>\<open>src/xastropy/xguis/igmguesses.py\<close>. Python floats are
  idealised as \<^typ>\<open>real\<close> (no rounding, no overflow, no NaN); a quantity with a unit
  is its value in the unit the source uses throughout (Angstrom for wavelengths and
  equivalent widths, km/s for velocities).
\<close>

datatype py_error = ValueError | IndexError | KeyError | AttributeError | UnboundLocalError

text \<open>A row of the line catalog: the atomic data the source reads from a line.\<close>

record transition =
  t_wrest :: real
  t_f :: real
  t_Ej :: real
  t_name :: string

text \<open>
  An \<^verbatim>\<open>AbsLine\<close>: its catalog row (\<^verbatim>\<open>line.data\<close>), the entries of
  \<^verbatim>\<open>line.attrib\<close> the source touches, and \<^verbatim>\<open>line.analy['vlim']\<close>.
\<close>

record absline =
  data :: transition
  l_z :: real
  l_logN :: real
  l_b :: real
  l_N :: real
  l_vlim :: "real \<times> real"

text \<open>The dictionary \<^verbatim>\<open>comp.attrib\<close> that \<^verbatim>\<open>comp_init_attrib\<close> installs.\<close>

record attrib =
  a_N :: real
  a_Nsig :: real
  a_flagN :: int
  a_logN :: real
  a_sig_logN :: real
  a_b :: real
  a_bsig :: real
  a_z :: real
  a_zsig :: real
  a_Reliability :: string

text \<open>
  An \<^verbatim>\<open>AbsComponent\<close> with the attributes the tool adds to it
  (\<^verbatim>\<open>init_wrest\<close>, \<^verbatim>\<open>mask_abslines\<close>, \<^verbatim>\<open>attrib\<close>, \<^verbatim>\<open>name\<close>).
  Mask values: 0 do not use, 1 display only, 2 use for fitting.
\<close>

record component =
  name :: string
  zcomp :: real
  vlim :: "real \<times> real"
  stars :: "string option"
  init_wrest :: real
  attrib :: attrib
  comment :: string
  abslines :: "absline list"
  mask_abslines :: "int list"

text \<open>What \<^verbatim>\<open>linelist.all_transitions(wrest)\<close> hands back: one row as a dict, or a table.\<close>

datatype lookup = Single transition | Table "transition list"

section \<open>Component helpers\<close>

text \<open>
  Modelled from the spec: the constructor \<^verbatim>\<open>AbsLine(trans['wrest'])\<close> of the line
  library, which is not part of the repository. The line carries the atomic data of its
  transition and neutral attributes.
\<close>

definition AbsLine :: "transition \<Rightarrow> absline" where
  "AbsLine tr = \<lparr>data = tr, l_z = 0, l_logN = 0, l_b = 0, l_N = 0, l_vlim = (0, 0)\<rparr>"

definition comp_init_attrib :: "component \<Rightarrow> component" where
  "comp_init_attrib cmp =
     cmp\<lparr>attrib := \<lparr>a_N = 0, a_Nsig = 0, a_flagN = 0, a_logN = 0, a_sig_logN = 0,
                      a_b = 0, a_bsig = 0, a_z = zcomp cmp, a_zsig = 0,
                      a_Reliability = ''None''\<rparr>\<rparr>"

text \<open>
  Modelled from the spec: \<^verbatim>\<open>AbsComponent.from_abslines\<close> of the line library, which
  is not part of the repository. The component takes redshift and velocity limits from
  the first line and owns every line handed in (one line per matching transition).
\<close>

fun from_abslines :: "absline list \<Rightarrow> string option \<Rightarrow> py_error + component" where
  "from_abslines [] st = Inl IndexError"
| "from_abslines (l0 # ls) st =
     Inr \<lparr>name = [], zcomp = l_z l0, vlim = l_vlim l0, stars = st, init_wrest = 0,
          attrib = \<lparr>a_N = 0, a_Nsig = 0, a_flagN = 0, a_logN = 0, a_sig_logN = 0,
                     a_b = 0, a_bsig = 0, a_z = 0, a_zsig = 0, a_Reliability = []\<rparr>,
          comment = [], abslines = l0 # ls, mask_abslines = []\<rparr>"

text \<open>\<^verbatim>\<open>s.split(' ')[0]\<close>: the text before the first blank.\<close>

definition species :: "string \<Rightarrow> string" where
  "species s = takeWhile (\<lambda>c. c \<noteq> CHR '' '') s"

text \<open>\<^verbatim>\<open>'*'*(len(s.split('*'))-1)\<close>: as many stars as the name holds.\<close>

definition star_marks :: "string \<Rightarrow> string" where
  "star_marks s = replicate (length (filter (\<lambda>c. c = CHR ''*'') s)) (CHR ''*'')"

text \<open>\<^verbatim>\<open>if isinstance(all_trans, dict): all_trans = [all_trans]\<close>\<close>

definition as_list :: "lookup \<Rightarrow> transition list" where
  "as_list r = (case r of Single t \<Rightarrow> [t] | Table ts \<Rightarrow> ts)"

text \<open>
  \<^verbatim>\<open>create_component(z, wrest, linelist, vlim)\<close>. The catalog is the function
  \<open>linelist\<close>; \<open>fmt5\<close> stands for the float formatting \<^verbatim>\<open>'{:.5f}'.format\<close>.
  The source never tests for an empty answer of the catalog: \<^verbatim>\<open>abslines[0]\<close> is
  the first place where an empty list is noticed.
\<close>

definition create_component ::
  "(real \<Rightarrow> string) \<Rightarrow> real \<Rightarrow> real \<Rightarrow> (real \<Rightarrow> lookup) \<Rightarrow> real \<times> real \<Rightarrow> py_error + component"
where
  "create_component fmt5 z wrest linelist vl =
     (let all_trans = as_list (linelist wrest);
          lines = map (\<lambda>tr. (AbsLine tr)\<lparr>l_z := z, l_vlim := vl\<rparr>) all_trans
      in case lines of
           [] \<Rightarrow> Inl IndexError
         | l0 # _ \<Rightarrow>
            (let st = (if t_Ej (data l0) > 0 then Some (star_marks (t_name (data l0))) else None)
             in case from_abslines lines st of
                  Inl e \<Rightarrow> Inl e
                | Inr comp0 \<Rightarrow>
                   (let comp1 = comp0\<lparr>init_wrest := wrest\<rparr>;
                        comp2 = comp_init_attrib comp1;
                        comp3 = comp2\<lparr>mask_abslines := replicate (length (abslines comp2)) 2\<rparr>
                    in case abslines comp3 of
                         [] \<Rightarrow> Inl IndexError
                       | f0 # _ \<Rightarrow>
                          Inr (comp3\<lparr>name := ''z'' @ fmt5 (zcomp comp3) @ ''_''
                                               @ species (t_name (data f0))\<rparr>))))"

text \<open>\<^verbatim>\<open>sync_comp_lines(comp)\<close>: push the fit attributes down to every line.\<close>

definition sync_comp_lines :: "component \<Rightarrow> component" where
  "sync_comp_lines cmp =
     cmp\<lparr>abslines := map (\<lambda>line. line\<lparr>l_logN := a_logN (attrib cmp),
                                          l_b := a_b (attrib cmp),
                                          l_z := a_z (attrib cmp)\<rparr>) (abslines cmp)\<rparr>"

section \<open>Masking of weak lines\<close>

text \<open>
  One centimetre in Angstrom. The source divides by \<^verbatim>\<open>u.cm\<close> and compares the
  result with a threshold in Angstrom; the unit library converts before comparing.
\<close>

definition cm :: real where
  "cm = 10 ^ 8"

text \<open>
  The estimate of the source,
  \<^verbatim>\<open>fosc * wrest**2 * 10**line.attrib['logN'] / u.cm / (1.13 * 10**12)\<close>, in Angstrom.
\<close>

definition ew_est :: "absline \<Rightarrow> real" where
  "ew_est line =
     (let fosc = t_f (data line); wrest = t_wrest (data line)
      in fosc * wrest ^ 2 * 10 powr (l_logN line) / cm / (1.13 * 10 ^ 12))"

text \<open>
  The loop of \<^verbatim>\<open>mask_comp_lines\<close> over \<^verbatim>\<open>enumerate(comp._abslines)\<close>; \<open>ii\<close> is
  the running index and the mask is written in place. Writing or reading past the end
  of the mask raises \<^verbatim>\<open>IndexError\<close>.
\<close>

fun mask_loop :: "real \<Rightarrow> absline list \<Rightarrow> nat \<Rightarrow> int list \<Rightarrow> py_error + int list" where
  "mask_loop min_ew [] ii msk = Inr msk"
| "mask_loop min_ew (line # rest) ii msk =
     (if ew_est line < min_ew then
        (if ii < length msk then mask_loop min_ew rest (Suc ii) (msk[ii := 0])
         else Inl IndexError)
      else
        (if ii < length msk then
           (if msk ! ii = 0 then mask_loop min_ew rest (Suc ii) (msk[ii := 2])
            else mask_loop min_ew rest (Suc ii) msk)
         else Inl IndexError))"

definition mask_comp_lines :: "component \<Rightarrow> real \<Rightarrow> py_error + component" where
  "mask_comp_lines cmp min_ew =
     (case mask_loop min_ew (abslines cmp) 0 (mask_abslines cmp) of
        Inl e \<Rightarrow> Inl e
      | Inr msk \<Rightarrow> Inr (cmp\<lparr>mask_abslines := msk\<rparr>))"

text \<open>The sanity check at the end of \<^verbatim>\<open>mask_comp_lines\<close>: whether the warning is printed.\<close>

definition mask_warning :: "component \<Rightarrow> bool" where
  "mask_warning cmp = (sum_list (mask_abslines cmp) = 0)"

section \<open>Session state\<close>

text \<open>
  A call of a method either returns or raises; the state it leaves behind is given in
  both cases.
\<close>

datatype outcome = Returned | Raised py_error

text \<open>
  The collaborators that are not part of the repository, taken as parameters: the
  float formatting of the component name, the ISM line catalog
  (\<^verbatim>\<open>self.llist['ISM'].all_transitions\<close>) and the Voigt model of the line library
  (\<^verbatim>\<open>lav.voigt_from_abslines(wavelength, lines, fwhm=fwhm)\<close>, giving the model flux).

  Two more belong to the runtime and the toolkit. \<open>x_rank\<close> is the place of a key in
  the order in which the \<^verbatim>\<open>dict\<close> that \<^verbatim>\<open>json.load\<close> builds yields its keys; keys of
  equal rank come in the order of the document. A constant rank is a runtime whose
  \<^verbatim>\<open>dict\<close> keeps the order of insertion; the hash order of an older runtime is
  another rank. \<open>x_selected names idx\<close> is the text of the first row that the list
  widget reports as selected (\<^verbatim>\<open>complist_widget.selectedItems()\<close>) when
  \<^verbatim>\<open>remove_item\<close> reaches its call of \<^verbatim>\<open>on_list_change\<close>, where \<open>names\<close> are the names
  listed before the removal and \<open>idx\<close> is the position removed; it is \<open>None\<close> when no
  row is selected.
\<close>

record ext =
  x_fmt5 :: "real \<Rightarrow> string"
  x_ISM :: "real \<Rightarrow> lookup"
  x_voigt :: "real list \<Rightarrow> absline list \<Rightarrow> real \<Rightarrow> real list"
  x_rank :: "string \<Rightarrow> nat"
  x_selected :: "string list \<Rightarrow> nat \<Rightarrow> string option"

text \<open>
  The state of one \<^verbatim>\<open>IGMGuessesGui\<close> with its widgets. Components are objects: they
  live in \<open>heap\<close> and are referred to by their address, the index into \<open>heap\<close>, so that
  \<^verbatim>\<open>comps_widg.all_comp\<close>, \<^verbatim>\<open>fiddle_widg.component\<close> and
  \<^verbatim>\<open>velplot_widg.current_comp\<close> can refer to the same object. \<open>current_comp = None\<close>
  stands for the attribute that \<^verbatim>\<open>IGGVelPlotWidget.__init__\<close> never assigns. The
  widgets are always built with the main window as parent, so \<^verbatim>\<open>self.parent is None\<close>
  is not a case of this state. Rendering is not part of the state.
\<close>

record gui =
  heap :: "component list"
  all_comp :: "nat list"
  all_items :: "string list"
  fiddle :: "nat option"
  current_comp :: "nat option"
  g_fwhm :: real
  g_min_ew :: real
  g_z :: real
  spec_filename :: string
  spec_wavelength :: "real list"
  spec_flux :: "real list"
  spec_sig :: "real list"
  spec_bad_pixels :: "int list"
  model_flux :: "real list"
  plot_residuals :: bool
  residual_normalization_factor :: real
  residual_limit :: "real list"
  residual :: "real list"

section \<open>Model synthesizer\<close>

text \<open>\<^verbatim>\<open>np.min\<close> and \<^verbatim>\<open>np.max\<close> of a non-empty array.\<close>

definition np_min :: "real list \<Rightarrow> real" where
  "np_min xs = fold min (tl xs) (hd xs)"

definition np_max :: "real list \<Rightarrow> real" where
  "np_max xs = fold max (tl xs) (hd xs)"

text \<open>
  The inner loop of \<^verbatim>\<open>update_model\<close> over the lines of one component: the lines as
  the loop leaves them (\<^verbatim>\<open>line.attrib['N']\<close> is written on the lines that are used)
  and the lines appended to \<^verbatim>\<open>gdlin\<close>.
\<close>

fun collect_lines ::
  "real \<Rightarrow> real \<Rightarrow> int list \<Rightarrow> nat \<Rightarrow> absline list \<Rightarrow> outcome \<times> absline list \<times> absline list"
where
  "collect_lines wvmin wvmax msk ii [] = (Returned, [], [])"
| "collect_lines wvmin wvmax msk ii (line # rest) =
     (if ii < length msk then
        (if msk ! ii = 0 then
           (case collect_lines wvmin wvmax msk (Suc ii) rest of
              (oc, ls, gd) \<Rightarrow> (oc, line # ls, gd))
         else
           (let wvobs = (1 + l_z line) * t_wrest (data line)
            in if wvobs > wvmin \<and> wvobs < wvmax then
                 (let line' = line\<lparr>l_N := 10 powr (l_logN line)\<rparr>
                  in case collect_lines wvmin wvmax msk (Suc ii) rest of
                       (oc, ls, gd) \<Rightarrow> (oc, line' # ls, line' # gd))
               else
                 (case collect_lines wvmin wvmax msk (Suc ii) rest of
                    (oc, ls, gd) \<Rightarrow> (oc, line # ls, gd))))
      else (Raised IndexError, line # rest, []))"

text \<open>The outer loop \<^verbatim>\<open>for comp in all_comp\<close>, over the addresses of the registry.\<close>

fun collect_comps ::
  "real \<Rightarrow> real \<Rightarrow> nat list \<Rightarrow> component list \<Rightarrow> outcome \<times> component list \<times> absline list"
where
  "collect_comps wvmin wvmax [] h = (Returned, h, [])"
| "collect_comps wvmin wvmax (a # as) h =
     (case collect_lines wvmin wvmax (mask_abslines (h ! a)) 0 (abslines (h ! a)) of
        (oc, ls, gd) \<Rightarrow>
          (let h1 = h[a := (h ! a)\<lparr>abslines := ls\<rparr>]
           in case oc of
                Raised e \<Rightarrow> (Raised e, h1, [])
              | Returned \<Rightarrow>
                  (case collect_comps wvmin wvmax as h1 of
                     (oc2, h2, gd2) \<Rightarrow> (oc2, h2, gd @ gd2))))"

text \<open>
  The residual arrays that \<^verbatim>\<open>update_model\<close> refreshes when \<^verbatim>\<open>plot_residuals\<close> is
  set. The arrays of one spectrum and its model have one length.
\<close>

definition set_residuals :: "gui \<Rightarrow> gui" where
  "set_residuals st =
     (if plot_residuals st then
        st\<lparr>residual_limit := map (\<lambda>s. s * residual_normalization_factor st) (spec_sig st),
            residual := map (\<lambda>(f, m). (f - m) * residual_normalization_factor st)
                            (zip (spec_flux st) (model_flux st))\<rparr>
      else st)"

text \<open>
  \<^verbatim>\<open>IGGVelPlotWidget.update_model\<close>. With an empty registry the model is reset to one
  and the method returns. Otherwise the lines in use are collected and, only if there
  is at least one, the model is replaced by the Voigt model.
\<close>

definition update_model :: "ext \<Rightarrow> gui \<Rightarrow> outcome \<times> gui" where
  "update_model x st =
     (if length (all_comp st) = 0 then
        (Returned, st\<lparr>model_flux := map (\<lambda>_. 1) (model_flux st)\<rparr>)
      else if spec_wavelength st = [] then (Raised ValueError, st)
      else
        (let wvmin = np_min (spec_wavelength st);
             wvmax = np_max (spec_wavelength st)
         in case collect_comps wvmin wvmax (all_comp st) (heap st) of
              (oc, h, gdlin) \<Rightarrow>
                (case oc of
                   Raised e \<Rightarrow> (Raised e, st\<lparr>heap := h\<rparr>)
                 | Returned \<Rightarrow>
                     (let st1 = st\<lparr>heap := h\<rparr>;
                          st2 = (if length gdlin > 0
                                 then st1\<lparr>model_flux := x_voigt x (spec_wavelength st1) gdlin (g_fwhm st1)\<rparr>
                                 else st1)
                      in (Returned, set_residuals st2)))))"

section \<open>Adding and deleting components\<close>

text \<open>The first argument of \<^verbatim>\<open>add_component\<close>: a component or a rest wavelength.\<close>

datatype inp = Comp component | Wrest real

text \<open>
  \<^verbatim>\<open>IGGVelPlotWidget.add_component(inp, vlim, zcomp, update_model=False)\<close>, the way
  \<^verbatim>\<open>read_previous\<close> calls it: no fit and no model update. The new object is stored at
  a fresh address, appended to the registry with its name, shown in the fiddle widget
  and made the current component.
\<close>

definition add_component :: "ext \<Rightarrow> gui \<Rightarrow> inp \<Rightarrow> real \<times> real \<Rightarrow> real \<Rightarrow> outcome \<times> gui" where
  "add_component x st i vl zc =
     (case (case i of Comp c \<Rightarrow> Inr c
                    | Wrest w \<Rightarrow> create_component (x_fmt5 x) zc w (x_ISM x) vl) of
        Inl e \<Rightarrow> (Raised e, st)
      | Inr new_comp \<Rightarrow>
          (let a = length (heap st)
           in (Returned, st\<lparr>heap := heap st @ [new_comp],
                            all_comp := all_comp st @ [a],
                            all_items := all_items st @ [name new_comp],
                            fiddle := Some a,
                            current_comp := Some a\<rparr>)))"

text \<open>\<^verbatim>\<open>xs.index(v)\<close>: the first position of \<open>v\<close>, if any.\<close>

fun index_of :: "'a \<Rightarrow> 'a list \<Rightarrow> nat option" where
  "index_of v [] = None"
| "index_of v (y # ys) =
     (if y = v then Some 0 else (case index_of v ys of None \<Rightarrow> None | Some n \<Rightarrow> Some (Suc n)))"

text \<open>\<^verbatim>\<open>del xs[idx]\<close> and \<^verbatim>\<open>xs.pop(idx)\<close> for an index in range.\<close>

definition del_at :: "nat \<Rightarrow> 'a list \<Rightarrow> 'a list" where
  "del_at idx xs = take idx xs @ drop (Suc idx) xs"

text \<open>
  \<^verbatim>\<open>ComponentListWidget.on_list_change\<close>, given the text \<open>sel\<close> of the first selected
  row. With no selected row \<^verbatim>\<open>item[0]\<close> fails, the handler of that failure binds
  nothing, and the test of \<^verbatim>\<open>txt\<close> raises \<^verbatim>\<open>UnboundLocalError\<close>. The row
  \<^verbatim>\<open>'None'\<close> resets the fiddle widget (\<^verbatim>\<open>updated_compslist(None)\<close>); any other row
  is looked up by its text in \<^verbatim>\<open>all_items\<close> and the component at that position is
  shown in the fiddle widget.
\<close>

definition on_list_change :: "gui \<Rightarrow> string option \<Rightarrow> outcome \<times> gui" where
  "on_list_change st sel =
     (case sel of
        None \<Rightarrow> (Raised UnboundLocalError, st)
      | Some txt \<Rightarrow>
          (if txt = ''None'' then (Returned, st\<lparr>fiddle := None\<rparr>)
           else
             (case index_of txt (all_items st) of
                None \<Rightarrow> (Raised ValueError, st)
              | Some ii \<Rightarrow>
                  (if ii < length (all_comp st)
                   then (Returned, st\<lparr>fiddle := Some (all_comp st ! ii)\<rparr>)
                   else (Raised IndexError, st)))))"

text \<open>
  \<^verbatim>\<open>ComponentListWidget.remove_item(comp_name)\<close>: the entry is found by name, the
  first one with that name, and removed from both lists; then the rows of the list
  widget are updated and \<^verbatim>\<open>on_list_change\<close> is called. The calls of
  \<^verbatim>\<open>on_list_change\<close> that the toolkit makes on its own while the selection changes
  touch only the component of the fiddle widget, which the call at the end sets again.
\<close>

definition remove_item :: "ext \<Rightarrow> gui \<Rightarrow> string \<Rightarrow> outcome \<times> gui" where
  "remove_item x st comp_name =
     (case index_of comp_name (all_items st) of
        None \<Rightarrow> (Raised ValueError, st)
      | Some idx \<Rightarrow>
          (if idx < length (all_comp st) then
             on_list_change
               (st\<lparr>all_items := del_at idx (all_items st), all_comp := del_at idx (all_comp st)\<rparr>)
               (x_selected x (all_items st) idx)
           else (Raised IndexError, st\<lparr>all_items := del_at idx (all_items st)\<rparr>)))"

text \<open>
  \<^verbatim>\<open>IGMGuessesGui.delete_component(component)\<close>: the component is removed from the
  list by its name, the fiddle widget is reset if it shows this very object, and the
  model is updated.
\<close>

definition delete_component :: "ext \<Rightarrow> gui \<Rightarrow> nat \<Rightarrow> outcome \<times> gui" where
  "delete_component x st a =
     (case remove_item x st (name (heap st ! a)) of
        (Raised e, st1) \<Rightarrow> (Raised e, st1)
      | (Returned, st1) \<Rightarrow>
          update_model x (if fiddle st1 = Some a then st1\<lparr>fiddle := None\<rparr> else st1))"

section \<open>Selecting and deleting the nearest component\<close>

text \<open>The speed of light in km/s, \<^verbatim>\<open>c_mks\<close>.\<close>

definition c_mks :: real where
  "c_mks = 299792.458"

text \<open>\<^verbatim>\<open>np.argmin\<close> of a non-empty array: the first position of the least value.\<close>

fun np_argmin :: "real list \<Rightarrow> nat" where
  "np_argmin [] = 0"
| "np_argmin [v] = 0"
| "np_argmin (v # w # ws) =
     (let j = np_argmin (w # ws) in if v \<le> (w # ws) ! j then 0 else Suc j)"

text \<open>
  The key event as \<^verbatim>\<open>on_key\<close> reads it: the key, the \<^verbatim>\<open>gid\<close> of the panel under the
  cursor (\<open>None\<close> when the cursor is outside every panel, where
  \<^verbatim>\<open>event.inaxes.get_gid()\<close> raises the \<^verbatim>\<open>AttributeError\<close> that makes the handler
  return) and the velocity under the cursor.
\<close>

record event =
  e_key :: char
  e_gid :: "real option"
  e_xdata :: real

text \<open>\<^verbatim>\<open>np.where(wrest == iwrest)[0]\<close>: the registry positions anchored at \<open>wrest\<close>.\<close>

definition matching :: "gui \<Rightarrow> real \<Rightarrow> nat list" where
  "matching st wrest =
     filter (\<lambda>i. wrest = init_wrest (heap st ! (all_comp st ! i))) [0 ..< length (all_comp st)]"

text \<open>\<^verbatim>\<open>c_mks * (self.z - components[mt].zcomp) / (1+self.z)\<close>\<close>

definition dvz :: "gui \<Rightarrow> nat \<Rightarrow> real" where
  "dvz st mt = c_mks * (g_z st - zcomp (heap st ! (all_comp st ! mt))) / (1 + g_z st)"

text \<open>
  \<^verbatim>\<open>IGGVelPlotWidget.on_key\<close> for the keys \<^verbatim>\<open>'S'\<close> and \<^verbatim>\<open>'D'\<close>: none of the other
  blocks of the handler applies to these two keys, and the final redraw is rendering.
\<close>

definition on_key_SD :: "ext \<Rightarrow> gui \<Rightarrow> event \<Rightarrow> outcome \<times> gui" where
  "on_key_SD x st ev =
     (case e_gid ev of
        None \<Rightarrow> (Returned, st)
      | Some wrest \<Rightarrow>
          (let mtc = matching st wrest
           in if length mtc = 0 then (Returned, st)
              else
                (let mindvz = np_argmin (map (\<lambda>mt. \<bar>dvz st mt + e_xdata ev\<bar>) mtc);
                     target = all_comp st ! (mtc ! mindvz)
                 in if e_key ev = CHR ''S'' then (Returned, st\<lparr>fiddle := Some target\<rparr>)
                    else if e_key ev = CHR ''D'' then delete_component x st target
                    else (Returned, st))))"

section \<open>Persistence\<close>

text \<open>
  One entry of \<^verbatim>\<open>igmg_dict['cmps']\<close>. The keys that older files may lack are
  optional (\<open>None\<close> is a missing key); a file that lacks one of the other keys makes
  \<^verbatim>\<open>read_previous\<close> raise \<^verbatim>\<open>KeyError\<close> and is not a value of this type.
\<close>

record cmp_record =
  r_Name :: string
  r_lines :: "absline list option"
  r_mask_abslines :: "int list option"
  r_zcomp :: real
  r_wrest :: real
  r_vlim :: "real \<times> real"
  r_zfit :: real
  r_bfit :: real
  r_Nfit :: real
  r_Reliability :: "string option"
  r_Quality :: "string option"
  r_Comment :: string

text \<open>
  The JSON document: \<^verbatim>\<open>fwhm\<close>, \<^verbatim>\<open>spec_file\<close>, \<^verbatim>\<open>bad_pixels\<close> (optional on
  reading) and \<^verbatim>\<open>cmps\<close>, an object with one entry per key, in the order of the text
  of the document.
\<close>

record igmg_file =
  f_fwhm :: real
  f_spec_file :: string
  f_bad_pixels :: "int list option"
  f_cmps :: "(string \<times> cmp_record) list"

text \<open>
  Modelled from the spec: \<^verbatim>\<open>AbsComponent.to_dict\<close> of the line library, which is not
  part of the repository. The record holds the component's descriptive state: its
  name, redshift, velocity limits and lines; \<^verbatim>\<open>write_out\<close> sets the other keys.
\<close>

definition to_dict :: "component \<Rightarrow> cmp_record" where
  "to_dict cmp =
     \<lparr>r_Name = name cmp, r_lines = Some (abslines cmp), r_mask_abslines = None,
      r_zcomp = zcomp cmp, r_wrest = 0, r_vlim = vlim cmp, r_zfit = 0, r_bfit = 0,
      r_Nfit = 0, r_Reliability = None, r_Quality = None, r_Comment = []\<rparr>"

text \<open>
  Modelled from the spec: \<^verbatim>\<open>AbsComponent.from_dict\<close> of the line library, which is
  not part of the repository. The component is rebuilt from its record, with the lines
  the record holds.
\<close>

definition from_dict :: "cmp_record \<Rightarrow> absline list \<Rightarrow> component" where
  "from_dict r ls =
     \<lparr>name = r_Name r, zcomp = r_zcomp r, vlim = r_vlim r, stars = None, init_wrest = 0,
      attrib = \<lparr>a_N = 0, a_Nsig = 0, a_flagN = 0, a_logN = 0, a_sig_logN = 0,
                 a_b = 0, a_bsig = 0, a_z = 0, a_zsig = 0, a_Reliability = []\<rparr>,
      comment = [], abslines = ls, mask_abslines = []\<rparr>"

text \<open>
  \<^verbatim>\<open>d[key] = v\<close> on a \<^verbatim>\<open>dict\<close> kept as the list of its entries, in the order in
  which the keys were first set.
\<close>

fun dict_set :: "'k \<Rightarrow> 'v \<Rightarrow> ('k \<times> 'v) list \<Rightarrow> ('k \<times> 'v) list" where
  "dict_set k v [] = [(k, v)]"
| "dict_set k v (p # ps) = (if fst p = k then (k, v) # ps else p # dict_set k v ps)"

subsection \<open>Writing\<close>

text \<open>
  The loop of \<^verbatim>\<open>write_out\<close> that drops the masked lines of one copied component:
  the lines and mask values that are kept.
\<close>

fun keep_lines :: "int list \<Rightarrow> nat \<Rightarrow> absline list \<Rightarrow> py_error + (absline list \<times> int list)" where
  "keep_lines msk ii [] = Inr ([], [])"
| "keep_lines msk ii (line # rest) =
     (if ii < length msk then
        (if msk ! ii \<noteq> 0 then
           (case keep_lines msk (Suc ii) rest of
              Inl e \<Rightarrow> Inl e
            | Inr (ls, ms) \<Rightarrow> Inr (line # ls, (msk ! ii) # ms))
         else keep_lines msk (Suc ii) rest)
      else Inl IndexError)"

text \<open>The entry \<^verbatim>\<open>write_out\<close> stores for a component whose masked lines are gone.\<close>

definition out_record :: "component \<Rightarrow> cmp_record" where
  "out_record cmp =
     (to_dict cmp)\<lparr>r_zcomp := zcomp cmp,
                   r_zfit := a_z (attrib cmp),
                   r_Nfit := a_logN (attrib cmp),
                   r_bfit := a_b (attrib cmp),
                   r_wrest := init_wrest cmp,
                   r_vlim := vlim cmp,
                   r_Reliability := Some (a_Reliability (attrib cmp)),
                   r_Comment := comment cmp,
                   r_mask_abslines := Some (mask_abslines cmp)\<rparr>"

text \<open>
  The loop \<^verbatim>\<open>for kk,comp in enumerate(comps_aux)\<close> over the addresses of the copies:
  each copy loses its masked lines and is entered in \<^verbatim>\<open>out_dict['cmps']\<close>.
\<close>

fun write_comps ::
  "nat list \<Rightarrow> component list \<Rightarrow> (string \<times> cmp_record) list
     \<Rightarrow> outcome \<times> component list \<times> (string \<times> cmp_record) list"
where
  "write_comps [] h d = (Returned, h, d)"
| "write_comps (a # as) h d =
     (case keep_lines (mask_abslines (h ! a)) 0 (abslines (h ! a)) of
        Inl e \<Rightarrow> (Raised e, h, d)
      | Inr (ls, ms) \<Rightarrow>
          (let cmp = (h ! a)\<lparr>abslines := ls, mask_abslines := ms\<rparr>
           in write_comps as (h[a := cmp]) (dict_set (name cmp) (out_record cmp) d)))"

text \<open>\<^verbatim>\<open>np.where(bad_pixels == 1)[0]\<close>\<close>

definition where_one :: "int list \<Rightarrow> int list" where
  "where_one bp = map int (filter (\<lambda>i. bp ! i = 1) [0 ..< length bp])"

text \<open>
  \<^verbatim>\<open>IGMGuessesGui.write_out\<close>. \<^verbatim>\<open>copy.deepcopy\<close> stores a copy of every registry
  component at a fresh address; the loop works on the copies. The result is the state
  after the call and, when the call returns, the document that is written:
  \<^verbatim>\<open>json.dumps(gd_dict, sort_keys=True, ...)\<close> writes the entries of \<^verbatim>\<open>cmps\<close> sorted by
  key.
\<close>

definition write_out :: "gui \<Rightarrow> outcome \<times> gui \<times> igmg_file option" where
  "write_out st =
     (let n = length (heap st);
          h0 = heap st @ map (\<lambda>a. heap st ! a) (all_comp st);
          comps_aux = [n ..< n + length (all_comp st)]
      in case write_comps comps_aux h0 [] of
           (Raised e, h, d) \<Rightarrow> (Raised e, st\<lparr>heap := h\<rparr>, None)
         | (Returned, h, d) \<Rightarrow>
             (Returned, st\<lparr>heap := h\<rparr>,
              Some \<lparr>f_fwhm = g_fwhm st, f_spec_file = spec_filename st,
                    f_bad_pixels = Some (where_one (spec_bad_pixels st)),
                    f_cmps = sort_key fst d\<rparr>))"

subsection \<open>Reading\<close>

text \<open>
  \<^verbatim>\<open>bad_pixels[np.array(bad)] = 1\<close>: an index counts from the end when negative and
  raises \<^verbatim>\<open>IndexError\<close> when out of range.
\<close>

definition set_bad :: "int list \<Rightarrow> int list \<Rightarrow> py_error + int list" where
  "set_bad bp bad =
     (let n = int (length bp)
      in if list_all (\<lambda>i. - n \<le> i \<and> i < n) bad
         then Inr (fold (\<lambda>i b. b[nat (if i < 0 then n + i else i) := 1]) bad bp)
         else Inl IndexError)"

text \<open>
  The \<^verbatim>\<open>try\<close> around \<^verbatim>\<open>['Reliability']\<close> with its fallback to \<^verbatim>\<open>['Quality']\<close>.
\<close>

definition reliability_of :: "cmp_record \<Rightarrow> string option" where
  "reliability_of r =
     (case r_Reliability r of Some v \<Rightarrow> Some v | None \<Rightarrow> r_Quality r)"

text \<open>
  One round of the loop of \<^verbatim>\<open>read_previous\<close> over \<^verbatim>\<open>igmg_dict['cmps']\<close>: the
  outcome, the state and the warnings issued. The mask that a raising call of
  \<^verbatim>\<open>mask_comp_lines\<close> leaves half written is not modelled.
\<close>

definition read_cmp :: "ext \<Rightarrow> gui \<Rightarrow> string \<times> cmp_record \<Rightarrow> outcome \<times> gui \<times> string list" where
  "read_cmp x st kr =
     (let key = fst kr; r = snd kr;
          added =
            (case r_lines r of
               Some ls \<Rightarrow>
                 (let c0 = from_dict r ls;
                      c1 = comp_init_attrib c0;
                      c2 = c1\<lparr>init_wrest := r_wrest r\<rparr>
                  in case r_mask_abslines r of
                       Some m \<Rightarrow>
                         (case add_component x st (Comp (c2\<lparr>mask_abslines := m\<rparr>)) (r_vlim r) (r_zcomp r) of
                            (oc, st1) \<Rightarrow> (oc, st1, []))
                     | None \<Rightarrow>
                         (case add_component x st
                                 (Comp (c2\<lparr>mask_abslines := replicate (length (abslines c2)) 2\<rparr>))
                                 (r_vlim r) (r_zcomp r) of
                            (oc, st1) \<Rightarrow> (oc, st1, [''Setting all abslines to 2''])))
             | None \<Rightarrow>
                 (case add_component x st (Wrest (r_wrest r)) (r_vlim r) (r_zcomp r) of
                    (oc, st1) \<Rightarrow> (oc, st1, [])))
      in case added of
           (Raised e, st1, w) \<Rightarrow> (Raised e, st1, w)
         | (Returned, st1, w) \<Rightarrow>
             (case current_comp st1 of
                None \<Rightarrow> (Raised AttributeError, st1, w)
              | Some a \<Rightarrow>
                  (let c = heap st1 ! a;
                       c1 = c\<lparr>name := key,
                              attrib := (attrib c)\<lparr>a_z := r_zfit r, a_b := r_bfit r,
                                                    a_logN := r_Nfit r\<rparr>\<rparr>
                   in case reliability_of r of
                        None \<Rightarrow> (Raised KeyError, st1\<lparr>heap := (heap st1)[a := c1]\<rparr>, w)
                      | Some rel \<Rightarrow>
                          (let c2 = c1\<lparr>attrib := (attrib c1)\<lparr>a_Reliability := rel\<rparr>,
                                        comment := r_Comment r\<rparr>;
                               c3 = sync_comp_lines c2
                           in case mask_comp_lines c3 (g_min_ew st1) of
                                Inl e \<Rightarrow> (Raised e, st1\<lparr>heap := (heap st1)[a := c3]\<rparr>, w)
                              | Inr c4 \<Rightarrow> (Returned, st1\<lparr>heap := (heap st1)[a := c4]\<rparr>, w)))))"

text \<open>The loop itself, over the entries in turn: it stops at the first round that raises.\<close>

fun read_cmps :: "ext \<Rightarrow> gui \<Rightarrow> (string \<times> cmp_record) list \<Rightarrow> outcome \<times> gui \<times> string list" where
  "read_cmps x st [] = (Returned, st, [])"
| "read_cmps x st (kr # krs) =
     (case read_cmp x st kr of
        (Raised e, st1, w) \<Rightarrow> (Raised e, st1, w)
      | (Returned, st1, w) \<Rightarrow>
          (case read_cmps x st1 krs of (oc, st2, w2) \<Rightarrow> (oc, st2, w @ w2)))"

text \<open>
  The entries of \<^verbatim>\<open>igmg_dict['cmps']\<close> in the order in which
  \<^verbatim>\<open>igmg_dict['cmps'].keys()\<close> yields their keys.
\<close>

definition dict_items :: "ext \<Rightarrow> (string \<times> cmp_record) list \<Rightarrow> (string \<times> cmp_record) list" where
  "dict_items x d = sort_key (\<lambda>kr. x_rank x (fst kr)) d"

text \<open>
  \<^verbatim>\<open>IGMGuessesGui.read_previous\<close> on the document that \<^verbatim>\<open>json.load\<close> parsed: the
  outcome, the state and the warnings issued through \<^verbatim>\<open>warnings.warn\<close>, in order.
\<close>

definition read_previous :: "ext \<Rightarrow> gui \<Rightarrow> igmg_file \<Rightarrow> outcome \<times> gui \<times> string list" where
  "read_previous x st file =
     (if f_fwhm file \<noteq> g_fwhm st then (Raised ValueError, st, [])
      else
        (case (case f_bad_pixels file of
                 None \<Rightarrow> Inr (spec_bad_pixels st)
               | Some bad \<Rightarrow> (if length bad > 0 then set_bad (spec_bad_pixels st) bad
                              else Inr (spec_bad_pixels st))) of
           Inl e \<Rightarrow> (Raised e, st, [])
         | Inr bp \<Rightarrow>
             (let st1 = st\<lparr>spec_bad_pixels := bp\<rparr>;
                  w0 = (if spec_filename st1 \<noteq> f_spec_file file
                        then [''Spec file names do not match! Could just be path..''] else [])
              in case read_cmps x st1 (dict_items x (f_cmps file)) of
                   (Raised e, st2, w) \<Rightarrow> (Raised e, st2, w0 @ w)
                 | (Returned, st2, w) \<Rightarrow>
                     (case update_model x st2 of
                        (Raised e, st3) \<Rightarrow> (Raised e, st3, w0 @ w)
                      | (Returned, st3) \<Rightarrow>
                          (case current_comp st3 of
                             None \<Rightarrow> (Raised AttributeError, st3, w0 @ w)
                           | Some a \<Rightarrow> (Returned, st3\<lparr>fiddle := Some a\<rparr>, w0 @ w))))))"

section \<open>Notions used in the proofs\<close>

text \<open>
  Closed forms of what the loops compute; each is proved equal to its loop below.
  \<open>kept\<close> pairs the lines of a component with their mask values and keeps the pairs
  whose mask value is not 0; \<open>stripped\<close> is the component with only those lines.
\<close>

definition kept :: "component \<Rightarrow> (absline \<times> int) list" where
  "kept c = filter (\<lambda>p. snd p \<noteq> 0) (zip (abslines c) (mask_abslines c))"

definition stripped :: "component \<Rightarrow> component" where
  "stripped c = c\<lparr>abslines := map fst (kept c), mask_abslines := map snd (kept c)\<rparr>"

text \<open>The mask after one pass of the masking loop.\<close>

definition masked :: "real \<Rightarrow> absline list \<Rightarrow> int list \<Rightarrow> int list" where
  "masked mw ls m =
     map (\<lambda>p. if ew_est (fst p) < mw then 0 else if snd p = 0 then 2 else snd p) (zip ls m)
       @ drop (length ls) m"

text \<open>
  The component a session with threshold \<open>mw\<close> holds after reading the entry that
  \<^verbatim>\<open>write_out\<close> stores for \<open>c\<close>.
\<close>

definition reload :: "real \<Rightarrow> component \<Rightarrow> component" where
  "reload mw c =
     (let ls = map (\<lambda>line. line\<lparr>l_logN := a_logN (attrib c), l_b := a_b (attrib c),
                                  l_z := a_z (attrib c)\<rparr>) (abslines c)
      in \<lparr>name = name c, zcomp = zcomp c, vlim = vlim c, stars = None,
          init_wrest = init_wrest c,
          attrib = \<lparr>a_N = 0, a_Nsig = 0, a_flagN = 0, a_logN = a_logN (attrib c),
                     a_sig_logN = 0, a_b = a_b (attrib c), a_bsig = 0, a_z = a_z (attrib c),
                     a_zsig = 0, a_Reliability = a_Reliability (attrib c)\<rparr>,
          comment = comment c, abslines = ls,
          mask_abslines = masked mw ls (mask_abslines c)\<rparr>)"

text \<open>
  The components of a registry, without their masked lines, in the order in which a
  session reads them back: sorted by name, as \<^verbatim>\<open>write_out\<close> writes them, and then by
  the rank of the name, as the loaded \<^verbatim>\<open>dict\<close> yields them.
\<close>

definition read_order :: "ext \<Rightarrow> gui \<Rightarrow> component list" where
  "read_order x st =
     sort_key (\<lambda>c. x_rank x (name c))
       (sort_key name (map (\<lambda>a. stripped (heap st ! a)) (all_comp st)))"

text \<open>A component without the column densities that \<^verbatim>\<open>update_model\<close> writes on its lines.\<close>

definition forget_N :: "component \<Rightarrow> component" where
  "forget_N c = c\<lparr>abslines := map (\<lambda>line. line\<lparr>l_N := 0\<rparr>) (abslines c)\<rparr>"

text \<open>The session after \<open>cs\<close> were added one by one under the names \<open>ns\<close>.\<close>

definition grow :: "gui \<Rightarrow> component list \<Rightarrow> string list \<Rightarrow> gui" where
  "grow st cs ns =
     st\<lparr>heap := heap st @ cs,
        all_comp := all_comp st @ [length (heap st) ..< length (heap st) + length cs],
        all_items := all_items st @ ns,
        fiddle := Some (length (heap st) + length cs - 1),
        current_comp := Some (length (heap st) + length cs - 1)\<rparr>"

section \<open>Example data\<close>

text \<open>Small components, lines and catalogs on which the theorems are exercised.\<close>

definition ex_tr :: transition where
  "ex_tr = \<lparr>t_wrest = 1000, t_f = 1, t_Ej = 0, t_name = ''HI 1000''\<rparr>"

definition ex_strong :: absline where
  "ex_strong = \<lparr>data = ex_tr, l_z = 0, l_logN = 14, l_b = 0, l_N = 0, l_vlim = (-300, 300)\<rparr>"

definition ex_weak :: absline where
  "ex_weak = \<lparr>data = ex_tr, l_z = 0, l_logN = 10, l_b = 0, l_N = 0, l_vlim = (-300, 300)\<rparr>"

definition ex_attrib :: attrib where
  "ex_attrib = \<lparr>a_N = 0, a_Nsig = 0, a_flagN = 0, a_logN = 14, a_sig_logN = 0,
                 a_b = 20, a_bsig = 0, a_z = 0, a_zsig = 0, a_Reliability = ''a''\<rparr>"

definition ex_comp :: "int list \<Rightarrow> component" where
  "ex_comp m = \<lparr>name = ''z0.00000_HI'', zcomp = 0, vlim = (-300, 300), stars = None,
                init_wrest = 1000, attrib = ex_attrib, comment = ''ok'',
                abslines = [ex_strong, ex_weak, ex_strong], mask_abslines = m\<rparr>"

definition ex_fmt5 :: "real \<Rightarrow> string" where
  "ex_fmt5 x = ''0.00000''"

definition ex_empty_catalog :: "real \<Rightarrow> lookup" where
  "ex_empty_catalog w = Table []"

definition ex_catalog :: "real \<Rightarrow> lookup" where
  "ex_catalog w = Table [ex_tr, ex_tr\<lparr>t_wrest := 900, t_name := ''HI 900''\<rparr>]"


text \<open>
  A list widget with one selected row at a time: \<^verbatim>\<open>remove_item\<close> selects the row
  before the last one, and no row is selected any more when that row is the one taken
  out.
\<close>

definition ex_selected :: "string list \<Rightarrow> nat \<Rightarrow> string option" where
  "ex_selected names idx =
     (if length names \<le> 1 then Some ''None''
      else if Suc idx = length names - 1 then None
      else Some (names ! (length names - 2)))"

definition ex_x :: ext where
  "ex_x = \<lparr>x_fmt5 = ex_fmt5, x_ISM = ex_catalog, x_voigt = (\<lambda>wl ls fw. map (\<lambda>w. 1 / 2) wl),
           x_rank = (\<lambda>k. 0), x_selected = ex_selected\<rparr>"

text \<open>A session whose only component has every line masked out, with a given model.\<close>

definition ex_stale :: "real list \<Rightarrow> gui" where
  "ex_stale m =
     \<lparr>heap = [ex_comp [0, 0, 0]], all_comp = [0], all_items = [''z0.00000_HI''],
      fiddle = Some 0, current_comp = Some 0, g_fwhm = 3, g_min_ew = 0.005, g_z = 0,
      spec_filename = ''spec.fits'', spec_wavelength = [900, 1100], spec_flux = [1, 1],
      spec_sig = [1, 1], spec_bad_pixels = [0, 0], model_flux = m, plot_residuals = False,
      residual_normalization_factor = 1, residual_limit = [1, 1], residual = [0, 0]\<rparr>"

text \<open>
  A session with two components anchored at 1000 Angstrom, at redshifts 0 and 0.001,
  and two key events in the panel of that transition, 250 km/s from the centre.
\<close>

definition ex_comp_z :: "string \<Rightarrow> real \<Rightarrow> component" where
  "ex_comp_z n z = (ex_comp [2, 0, 2])\<lparr>name := n, zcomp := z\<rparr>"

definition ex_two :: gui where
  "ex_two =
     \<lparr>heap = [ex_comp_z ''z0.00000_HI'' 0, ex_comp_z ''z0.00100_HI'' 0.001],
      all_comp = [0, 1], all_items = [''z0.00000_HI'', ''z0.00100_HI''],
      fiddle = Some 0, current_comp = Some 1, g_fwhm = 3, g_min_ew = 0.005, g_z = 0,
      spec_filename = ''spec.fits'', spec_wavelength = [900, 1100], spec_flux = [1, 1],
      spec_sig = [1, 1], spec_bad_pixels = [0, 1], model_flux = [1, 1],
      plot_residuals = False, residual_normalization_factor = 1, residual_limit = [1, 1],
      residual = [0, 0]\<rparr>"

text \<open>
  A session with two components of one name: both are HI at redshift 0, the first
  anchored at 1200 Angstrom and the second at 1000 Angstrom.
\<close>

definition ex_dup :: gui where
  "ex_dup =
     ex_two\<lparr>heap := [(ex_comp_z ''z0.00000_HI'' 0)\<lparr>init_wrest := 1200\<rparr>,
                      ex_comp_z ''z0.00000_HI'' 0],
            all_items := [''z0.00000_HI'', ''z0.00000_HI'']\<rparr>"

definition ex_event :: "char \<Rightarrow> event" where
  "ex_event k = \<lparr>e_key = k, e_gid = Some 1000, e_xdata = 250\<rparr>"

text \<open>
  A session as \<^verbatim>\<open>IGMGuessesGui.__init__\<close> leaves it before it reads a previous file,
  and the document \<^verbatim>\<open>write_out\<close> produces for the session with two components.
\<close>

definition ex_fresh :: gui where
  "ex_fresh =
     \<lparr>heap = [], all_comp = [], all_items = [], fiddle = None, current_comp = None,
      g_fwhm = 3, g_min_ew = 0.005, g_z = 0, spec_filename = ''spec.fits'',
      spec_wavelength = [900, 1100], spec_flux = [1, 1], spec_sig = [1, 1],
      spec_bad_pixels = [0, 0], model_flux = [1, 1], plot_residuals = False,
      residual_normalization_factor = 1, residual_limit = [1, 1], residual = [0, 0]\<rparr>"

definition ex_doc :: igmg_file where
  "ex_doc =
     \<lparr>f_fwhm = 3, f_spec_file = ''spec.fits'', f_bad_pixels = Some [1],
      f_cmps = [(''z0.00000_HI'', out_record (stripped (ex_comp_z ''z0.00000_HI'' 0))),
                (''z0.00100_HI'', out_record (stripped (ex_comp_z ''z0.00100_HI'' 0.001)))]\<rparr>"

text \<open>The session with two components, the later one listed first.\<close>

definition ex_rev :: gui where
  "ex_rev = ex_two\<lparr>all_comp := [1, 0], all_items := [''z0.00100_HI'', ''z0.00000_HI'']\<rparr>"

text \<open>A record of the older format: no lines, and the tag under \<^verbatim>\<open>Quality\<close>.\<close>

definition ex_legacy :: cmp_record where
  "ex_legacy =
     \<lparr>r_Name = [], r_lines = None, r_mask_abslines = None, r_zcomp = 0, r_wrest = 1000,
      r_vlim = (-300, 300), r_zfit = 0, r_bfit = 20, r_Nfit = 14, r_Reliability = None,
      r_Quality = Some ''b'', r_Comment = ''old''\<rparr>"

section \<open>Properties of the masking policy\<close>

lemma mask_loop_ok:
  "ii + length ls \<le> length m \<Longrightarrow> \<exists>m'. mask_loop mw ls ii m = Inr m'"
  by (induction ls arbitrary: ii m) auto

lemma mask_loop_length:
  "mask_loop mw ls ii m = Inr m' \<Longrightarrow> length m' = length m"
  by (induction ls arbitrary: ii m) (auto split: if_splits)

lemma mask_loop_before:
  "mask_loop mw ls ii m = Inr m' \<Longrightarrow> j < ii \<Longrightarrow> m' ! j = m ! j"
  by (induction ls arbitrary: ii m) (auto split: if_splits)

lemma mask_loop_after:
  "mask_loop mw ls ii m = Inr m' \<Longrightarrow> ii + length ls \<le> j \<Longrightarrow> m' ! j = m ! j"
  by (induction ls arbitrary: ii m) (auto split: if_splits)

lemma mask_loop_bound:
  "mask_loop mw ls ii m = Inr m' \<Longrightarrow> ii + length ls \<le> length m \<or> ls = []"
proof (induction ls arbitrary: ii m)
  case Nil
  then show ?case by simp
next
  case (Cons l ls)
  from Cons.prems have lt: "ii < length m"
    by (simp split: if_splits)
  from Cons.prems obtain m1 where m1: "mask_loop mw ls (Suc ii) m1 = Inr m'" "length m1 = length m"
    by (auto split: if_splits)
  from Cons.IH[OF m1(1)] m1(2) lt show ?case by auto
qed

lemma mask_loop_nth:
  "mask_loop mw ls ii m = Inr m' \<Longrightarrow> k < length ls \<Longrightarrow>
   m' ! (ii + k) = (if ew_est (ls ! k) < mw then 0 else if m ! (ii + k) = 0 then 2 else m ! (ii + k))"
proof (induction ls arbitrary: ii m k)
  case Nil
  then show ?case by simp
next
  case (Cons l ls)
  from Cons.prems(1) have lt: "ii < length m"
    by (simp split: if_splits)
  define m1 where "m1 = (if ew_est l < mw then m[ii := 0] else if m ! ii = 0 then m[ii := 2] else m)"
  from Cons.prems(1) lt have m1: "mask_loop mw ls (Suc ii) m1 = Inr m'"
    by (simp add: m1_def split: if_splits)
  show ?case
  proof (cases k)
    case 0
    have "m' ! ii = m1 ! ii"
      using mask_loop_before[OF m1, of ii] by simp
    with 0 lt show ?thesis by (simp add: m1_def)
  next
    case (Suc k')
    with Cons.prems(2) have k': "k' < length ls" by simp
    have "m1 ! (Suc ii + k') = m ! (Suc ii + k')"
      by (simp add: m1_def)
    with Cons.IH[OF m1 k'] Suc show ?thesis by simp
  qed
qed

lemma mask_loop_fixed:
  assumes "mask_loop mw ls 0 m = Inr m'"
  shows "mask_loop mw ls 0 m' = Inr m'"
proof (cases "ls = []")
  case True
  with assms show ?thesis by simp
next
  case False
  have len: "length m' = length m"
    using assms by (rule mask_loop_length)
  have bound: "length ls \<le> length m"
    using mask_loop_bound[OF assms] False by simp
  from mask_loop_ok[of 0 ls m' mw] bound len obtain m2 where m2: "mask_loop mw ls 0 m' = Inr m2"
    by auto
  have "m2 = m'"
  proof (rule nth_equalityI)
    show "length m2 = length m'" using m2 by (rule mask_loop_length)
  next
    fix j assume j: "j < length m2"
    show "m2 ! j = m' ! j"
    proof (cases "j < length ls")
      case True
      from mask_loop_nth[OF m2 True] mask_loop_nth[OF assms True] show ?thesis
        by (simp split: if_splits)
    next
      case False
      with mask_loop_after[OF m2, of j] show ?thesis by simp
    qed
  qed
  with m2 show ?thesis by simp
qed


lemma mask_comp_lines_Inr:
  "mask_comp_lines c mw = Inr c' \<longleftrightarrow>
   (\<exists>m'. mask_loop mw (abslines c) 0 (mask_abslines c) = Inr m' \<and> c' = c\<lparr>mask_abslines := m'\<rparr>)"
  by (auto simp: mask_comp_lines_def split: sum.splits)

text \<open>
  Claim C3. When the mask has an entry for every line, \<^verbatim>\<open>mask_comp_lines\<close> returns,
  keeps the lines and the length of the mask, and for each line computes the
  optically thin equivalent width \<open>f * wrest\<^sup>2 * 10\<^bsup>logN\<^esup> / (1.13 * 10\<^sup>1\<^sup>2 * cm)\<close>:
  a line whose estimate is below the threshold ends with mask value 0, and a line whose
  estimate reaches the threshold and whose mask value was 0 ends with mask value 2.
\<close>

theorem mask_comp_lines_threshold:
  assumes "length (abslines c) \<le> length (mask_abslines c)"
  shows "\<exists>c'. mask_comp_lines c min_ew = Inr c' \<and> abslines c' = abslines c \<and>
           length (mask_abslines c') = length (mask_abslines c) \<and>
           (\<forall>i < length (abslines c).
              ew_est (abslines c ! i) =
                t_f (data (abslines c ! i)) * (t_wrest (data (abslines c ! i))) ^ 2
                  * 10 powr (l_logN (abslines c ! i)) / (1.13 * 10 ^ 12 * cm) \<and>
              (ew_est (abslines c ! i) < min_ew \<longrightarrow> mask_abslines c' ! i = 0) \<and>
              (min_ew \<le> ew_est (abslines c ! i) \<and> mask_abslines c ! i = 0
                 \<longrightarrow> mask_abslines c' ! i = 2))"
proof -
  from mask_loop_ok[of 0 "abslines c" "mask_abslines c" min_ew] assms
  obtain m' where m': "mask_loop min_ew (abslines c) 0 (mask_abslines c) = Inr m'"
    by auto
  have run: "mask_comp_lines c min_ew = Inr (c\<lparr>mask_abslines := m'\<rparr>)"
    using m' by (simp add: mask_comp_lines_def)
  have len: "length m' = length (mask_abslines c)"
    using m' by (rule mask_loop_length)
  have vals: "\<forall>i < length (abslines c).
      (ew_est (abslines c ! i) < min_ew \<longrightarrow> m' ! i = 0) \<and>
      (min_ew \<le> ew_est (abslines c ! i) \<and> mask_abslines c ! i = 0 \<longrightarrow> m' ! i = 2)"
    using mask_loop_nth[OF m'] by simp
  have formula: "\<forall>i < length (abslines c). ew_est (abslines c ! i) =
                t_f (data (abslines c ! i)) * (t_wrest (data (abslines c ! i))) ^ 2
                  * 10 powr (l_logN (abslines c ! i)) / (1.13 * 10 ^ 12 * cm)"
    by (simp add: ew_est_def Let_def)
  show ?thesis
    using run len vals formula by simp
qed

lemma ex_ews: "ew_est ex_strong = 100 / 113" "ew_est ex_weak = 1 / 11300"
  by (simp_all add: ew_est_def ex_strong_def ex_weak_def ex_tr_def cm_def)

theorem mask_comp_lines_threshold_witness:
  "length (abslines (ex_comp [0, 2, 1])) \<le> length (mask_abslines (ex_comp [0, 2, 1])) \<and>
   mask_comp_lines (ex_comp [0, 2, 1]) 0.005 = Inr (ex_comp [2, 0, 1])"
proof -
  have run: "mask_comp_lines (ex_comp [0, 2, 1]) 0.005 = Inr (ex_comp [2, 0, 1])"
    by (simp add: mask_comp_lines_def ex_comp_def ex_ews)
  have hyp: "length (abslines (ex_comp [0, 2, 1])) \<le> length (mask_abslines (ex_comp [0, 2, 1]))"
    by (simp add: ex_comp_def)
  from mask_comp_lines_threshold[OF hyp, of "0.005"] run hyp show ?thesis
    by simp
qed

text \<open>
  Claim C4. Masking is idempotent: a second call of \<^verbatim>\<open>mask_comp_lines\<close> with the
  same threshold on the component the first call produced (its lines, hence their
  \<open>logN\<close>, are untouched) returns that same component, mask array included.
\<close>

theorem mask_comp_lines_idempotent:
  assumes "length (abslines c) \<le> length (mask_abslines c)"
  shows "\<exists>c'. mask_comp_lines c min_ew = Inr c' \<and> mask_comp_lines c' min_ew = Inr c'"
proof -
  from mask_loop_ok[of 0 "abslines c" "mask_abslines c" min_ew] assms
  obtain m' where m': "mask_loop min_ew (abslines c) 0 (mask_abslines c) = Inr m'"
    by auto
  have "mask_loop min_ew (abslines c) 0 m' = Inr m'"
    using m' by (rule mask_loop_fixed)
  then show ?thesis
    using m' by (simp add: mask_comp_lines_def)
qed

theorem mask_comp_lines_idempotent_witness:
  "length (abslines (ex_comp [0, 2, 1])) \<le> length (mask_abslines (ex_comp [0, 2, 1])) \<and>
   (\<exists>c'. mask_comp_lines (ex_comp [0, 2, 1]) 0.005 = Inr c' \<and> mask_comp_lines c' 0.005 = Inr c')"
proof -
  have hyp: "length (abslines (ex_comp [0, 2, 1])) \<le> length (mask_abslines (ex_comp [0, 2, 1]))"
    by (simp add: ex_comp_def)
  from mask_comp_lines_idempotent[OF hyp, of "0.005"] hyp show ?thesis
    by simp
qed

text \<open>
  Claim C10. If every mask entry lies in \<open>{0, 1, 2}\<close> before the call, every entry lies
  in \<open>{0, 1, 2}\<close> after it, and a line with mask value 1 (display only) whose estimated
  equivalent width reaches the threshold keeps mask value 1.
\<close>

theorem mask_comp_lines_range:
  assumes "length (abslines c) \<le> length (mask_abslines c)"
    and "set (mask_abslines c) \<subseteq> {0, 1, 2}"
  shows "\<exists>c'. mask_comp_lines c min_ew = Inr c' \<and>
           set (mask_abslines c') \<subseteq> {0, 1, 2} \<and>
           (\<forall>i < length (abslines c).
              mask_abslines c ! i = 1 \<and> min_ew \<le> ew_est (abslines c ! i)
                \<longrightarrow> mask_abslines c' ! i = 1)"
proof -
  from mask_loop_ok[of 0 "abslines c" "mask_abslines c" min_ew] assms(1)
  obtain m' where m': "mask_loop min_ew (abslines c) 0 (mask_abslines c) = Inr m'"
    by auto
  have len: "length m' = length (mask_abslines c)"
    using m' by (rule mask_loop_length)
  have inside: "m' ! j \<in> {0, 1, 2}" if j: "j < length m'" for j
  proof (cases "j < length (abslines c)")
    case True
    from j len assms(2) have "mask_abslines c ! j \<in> {0, 1, 2}"
      using nth_mem by fastforce
    with mask_loop_nth[OF m' True] show ?thesis
      by (simp split: if_splits)
  next
    case False
    from j len assms(2) have "mask_abslines c ! j \<in> {0, 1, 2}"
      using nth_mem by fastforce
    with mask_loop_after[OF m', of j] False show ?thesis by simp
  qed
  have rng: "set m' \<subseteq> {0, 1, 2}"
  proof
    fix x assume "x \<in> set m'"
    then obtain j where "j < length m'" "x = m' ! j"
      by (auto simp: in_set_conv_nth)
    with inside show "x \<in> {0, 1, 2}" by simp
  qed
  have keep: "\<forall>i < length (abslines c).
      mask_abslines c ! i = 1 \<and> min_ew \<le> ew_est (abslines c ! i) \<longrightarrow> m' ! i = 1"
    using mask_loop_nth[OF m'] by simp
  show ?thesis
    using m' rng keep by (simp add: mask_comp_lines_def)
qed

theorem mask_comp_lines_range_witness:
  "length (abslines (ex_comp [0, 2, 1])) \<le> length (mask_abslines (ex_comp [0, 2, 1])) \<and>
   set (mask_abslines (ex_comp [0, 2, 1])) \<subseteq> {0, 1, 2} \<and>
   (\<exists>c'. mask_comp_lines (ex_comp [0, 2, 1]) 0.005 = Inr c' \<and>
           set (mask_abslines c') \<subseteq> {0, 1, 2} \<and> mask_abslines c' ! 2 = 1)"
proof -
  have hyp: "length (abslines (ex_comp [0, 2, 1])) \<le> length (mask_abslines (ex_comp [0, 2, 1]))"
    by (simp add: ex_comp_def)
  have rng: "set (mask_abslines (ex_comp [0, 2, 1])) \<subseteq> {0, 1, 2}"
    by (simp add: ex_comp_def)
  have strong: "mask_abslines (ex_comp [0, 2, 1]) ! 2 = 1 \<and>
                0.005 \<le> ew_est (abslines (ex_comp [0, 2, 1]) ! 2)"
    by (simp add: ex_comp_def ex_ews)
  have three: "(2::nat) < length (abslines (ex_comp [0, 2, 1]))"
    by (simp add: ex_comp_def)
  from mask_comp_lines_range[OF hyp rng, of "0.005"] strong three hyp rng show ?thesis
    by blast
qed

section \<open>Properties of component construction\<close>

lemma create_component_Nil:
  "as_list (ll w) = [] \<Longrightarrow> create_component f z w ll vl = Inl IndexError"
  by (simp add: create_component_def)

lemma create_component_Cons:
  "as_list (ll w) = t # ts \<Longrightarrow>
   create_component f z w ll vl =
     Inr \<lparr>name = ''z'' @ f z @ ''_'' @ species (t_name t), zcomp = z, vlim = vl,
          stars = (if t_Ej t > 0 then Some (star_marks (t_name t)) else None),
          init_wrest = w,
          attrib = \<lparr>a_N = 0, a_Nsig = 0, a_flagN = 0, a_logN = 0, a_sig_logN = 0,
                     a_b = 0, a_bsig = 0, a_z = z, a_zsig = 0, a_Reliability = ''None''\<rparr>,
          comment = [],
          abslines = map (\<lambda>tr. (AbsLine tr)\<lparr>l_z := z, l_vlim := vl\<rparr>) (t # ts),
          mask_abslines = replicate (Suc (length ts)) 2\<rparr>"
  by (simp add: create_component_def comp_init_attrib_def AbsLine_def Let_def)

text \<open>
  Claim C6, as the code has it. When the catalog answers with no transition,
  \<^verbatim>\<open>create_component\<close> fails with the \<^verbatim>\<open>IndexError\<close> of \<^verbatim>\<open>abslines[0]\<close>. When the
  catalog answers with at least one transition, it returns a component with one line
  per transition, in the catalog's order, every line carrying the component's redshift
  and velocity limits, and with a mask of as many entries, all 2.
\<close>

theorem create_component_lines:
  "(as_list (linelist wrest) = [] \<longrightarrow>
      create_component fmt z wrest linelist vl = Inl IndexError) \<and>
   (as_list (linelist wrest) \<noteq> [] \<longrightarrow>
      (\<exists>c. create_component fmt z wrest linelist vl = Inr c \<and>
           map data (abslines c) = as_list (linelist wrest) \<and>
           (\<forall>l \<in> set (abslines c). l_z l = z \<and> l_vlim l = vl) \<and>
           zcomp c = z \<and> vlim c = vl \<and>
           mask_abslines c = replicate (length (as_list (linelist wrest))) 2))"
proof (cases "as_list (linelist wrest)")
  case Nil
  then show ?thesis by (simp add: create_component_Nil)
next
  case (Cons t ts)
  show ?thesis
    using Cons create_component_Cons[where ll = linelist and w = wrest, OF Cons, of fmt z vl]
    by (auto simp: AbsLine_def comp_def)
qed

theorem create_component_lines_witness:
  "as_list (ex_empty_catalog 1000) = [] \<and>
   create_component ex_fmt5 0 1000 ex_empty_catalog (-300, 300) = Inl IndexError \<and>
   as_list (ex_catalog 1000) \<noteq> [] \<and>
   (\<exists>c. create_component ex_fmt5 0 1000 ex_catalog (-300, 300) = Inr c \<and>
        map data (abslines c) = as_list (ex_catalog 1000) \<and>
        (\<forall>l \<in> set (abslines c). l_z l = 0 \<and> l_vlim l = (-300, 300)) \<and>
        zcomp c = 0 \<and> vlim c = (-300, 300) \<and>
        mask_abslines c = [2, 2])"
proof -
  have e: "as_list (ex_empty_catalog 1000) = []"
    by (simp add: as_list_def ex_empty_catalog_def)
  have n: "as_list (ex_catalog 1000) \<noteq> []" "length (as_list (ex_catalog 1000)) = 2"
    by (simp_all add: as_list_def ex_catalog_def)
  from create_component_lines[of ex_empty_catalog 1000 ex_fmt5 0 "(-300, 300)"]
       create_component_lines[of ex_catalog 1000 ex_fmt5 0 "(-300, 300)"] e n
  show ?thesis by (simp add: numeral_2_eq_2)
qed

text \<open>
  Claim C6 as stated fails: on a catalog without a matching transition the error is
  \<^verbatim>\<open>IndexError\<close>, not \<^verbatim>\<open>ValueError\<close>.
\<close>

theorem create_component_empty_catalog_counterexample:
  "as_list (ex_empty_catalog 1000) = [] \<and>
   create_component ex_fmt5 0 1000 ex_empty_catalog (-300, 300) = Inl IndexError \<and>
   create_component ex_fmt5 0 1000 ex_empty_catalog (-300, 300) \<noteq> Inl ValueError"
  by (simp add: create_component_def as_list_def ex_empty_catalog_def)

section \<open>Properties of the model synthesizer\<close>

text \<open>
  Claim C1. The model is not a function of registry and spectrum alone. In a session
  whose registry is not empty and none of whose lines is in use (here every line is
  masked out), \<^verbatim>\<open>update_model\<close> returns and leaves the model flux as it found it:
  two sessions that agree on components, masks and spectrum and differ in the previous
  model end with different models, whatever the Voigt model is.
\<close>

theorem update_model_keeps_stale_model:
  "update_model x (ex_stale [1 / 2, 1 / 2]) = (Returned, ex_stale [1 / 2, 1 / 2]) \<and>
   update_model x (ex_stale [1, 1]) = (Returned, ex_stale [1, 1]) \<and>
   model_flux (ex_stale [1 / 2, 1 / 2]) \<noteq> model_flux (ex_stale [1, 1])"
  by (simp add: update_model_def ex_stale_def ex_comp_def set_residuals_def np_min_def np_max_def)

section \<open>Properties of writing\<close>

lemma write_comps_frame:
  "write_comps as h d = (oc, h', d') \<Longrightarrow> \<forall>a \<in> set as. n \<le> a \<Longrightarrow>
   length h' = length h \<and> take n h' = take n h"
proof (induction as arbitrary: h d)
  case Nil
  then show ?case by simp
next
  case (Cons a as)
  show ?case
  proof (cases "keep_lines (mask_abslines (h ! a)) 0 (abslines (h ! a))")
    case (Inl e)
    with Cons.prems show ?thesis by simp
  next
    case (Inr p)
    obtain ls ms where p: "p = (ls, ms)" by (cases p)
    define c where "c = (h ! a)\<lparr>abslines := ls, mask_abslines := ms\<rparr>"
    from Cons.prems(1) Inr p
    have run: "write_comps as (h[a := c]) (dict_set (name c) (out_record c) d) = (oc, h', d')"
      by (simp add: c_def Let_def)
    from Cons.prems(2) have "\<forall>a \<in> set as. n \<le> a" "n \<le> a" by simp_all
    with Cons.IH[OF run] show ?thesis by simp
  qed
qed

text \<open>
  Claim C9. \<^verbatim>\<open>write_out\<close> does not change the live registry, whether it returns or
  raises: the registry refers to the same objects, every object that existed before the
  call is unchanged (lines and mask array included), and nothing of the state changes
  but the store, which gains the copies the masked lines are dropped from.
\<close>

theorem write_out_frame:
  "all_comp (fst (snd (write_out st))) = all_comp st \<and>
   take (length (heap st)) (heap (fst (snd (write_out st)))) = heap st \<and>
   (fst (snd (write_out st)))\<lparr>heap := heap st\<rparr> = st"
proof -
  define h0 where "h0 = heap st @ map (\<lambda>a. heap st ! a) (all_comp st)"
  define aux where "aux = [length (heap st) ..< length (heap st) + length (all_comp st)]"
  obtain oc h d where run: "write_comps aux h0 [] = (oc, h, d)"
    by (cases "write_comps aux h0 []") auto
  have "\<forall>a \<in> set aux. length (heap st) \<le> a" by (simp add: aux_def)
  from write_comps_frame[OF run this] have fr: "take (length (heap st)) h = heap st"
    by (simp add: h0_def)
  have st': "fst (snd (write_out st)) = st\<lparr>heap := h\<rparr>"
    using run by (cases oc) (simp_all add: write_out_def Let_def h0_def aux_def)
  show ?thesis by (simp add: st' fr)
qed

section \<open>Properties of nearest-component selection\<close>

lemma np_argmin_less: "xs \<noteq> [] \<Longrightarrow> np_argmin xs < length xs"
  by (induction xs rule: np_argmin.induct) (auto simp: Let_def)

lemma np_argmin_le: "j < length xs \<Longrightarrow> xs ! np_argmin xs \<le> xs ! j"
proof (induction xs arbitrary: j rule: np_argmin.induct)
  case 1
  then show ?case by simp
next
  case (2 v)
  then show ?case by simp
next
  case (3 v w ws)
  show ?case
  proof (cases j)
    case 0
    then show ?thesis by (simp add: Let_def)
  next
    case (Suc j')
    with "3.prems" have "j' < length (w # ws)" by simp
    from "3.IH"[OF this] Suc show ?thesis
      by (auto simp: Let_def)
  qed
qed

lemma np_argmin_first: "j < np_argmin xs \<Longrightarrow> xs ! np_argmin xs < xs ! j"
proof (induction xs arbitrary: j rule: np_argmin.induct)
  case 1
  then show ?case by simp
next
  case (2 v)
  then show ?case by simp
next
  case (3 v w ws)
  from "3.prems" have pos: "\<not> v \<le> (w # ws) ! np_argmin (w # ws)"
    by (auto simp: Let_def split: if_splits)
  then have am: "np_argmin (v # w # ws) = Suc (np_argmin (w # ws))"
    by (simp add: Let_def)
  show ?case
  proof (cases j)
    case 0
    with pos am show ?thesis by simp
  next
    case (Suc j')
    with "3.prems" am have "j' < np_argmin (w # ws)" by simp
    from "3.IH"[OF this] Suc am show ?thesis by simp
  qed
qed

lemma matching_set:
  "set (matching st w) = {i. i < length (all_comp st) \<and> w = init_wrest (heap st ! (all_comp st ! i))}"
  by (auto simp: matching_def)

lemma matching_sorted: "sorted_wrt (<) (matching st w)"
  unfolding matching_def by (rule sorted_wrt_filter) simp

lemma index_of_nth: "distinct xs \<Longrightarrow> i < length xs \<Longrightarrow> index_of (xs ! i) xs = Some i"
proof (induction xs arbitrary: i)
  case Nil
  then show ?case by simp
next
  case (Cons y ys)
  show ?case
  proof (cases i)
    case 0
    then show ?thesis by simp
  next
    case (Suc i')
    with Cons.prems have "i' < length ys" "distinct ys" "ys ! i' \<noteq> y"
      by auto
    with Cons.IH[of i'] Suc show ?thesis by simp
  qed
qed

lemma update_model_registry:
  "all_comp (snd (update_model x st)) = all_comp st \<and>
   all_items (snd (update_model x st)) = all_items st \<and>
   fiddle (snd (update_model x st)) = fiddle st"
  by (auto simp: update_model_def set_residuals_def Let_def split: prod.splits outcome.splits)

lemma on_list_change_registry:
  "all_comp (snd (on_list_change st sel)) = all_comp st \<and>
   all_items (snd (on_list_change st sel)) = all_items st"
  by (simp add: on_list_change_def split: option.splits)

lemma remove_item_registry:
  assumes "index_of n (all_items st) = Some idx" and "idx < length (all_comp st)"
  shows "all_comp (snd (remove_item x st n)) = del_at idx (all_comp st) \<and>
         all_items (snd (remove_item x st n)) = del_at idx (all_items st)"
  using assms by (simp add: remove_item_def on_list_change_registry)

text \<open>
  \<^verbatim>\<open>delete_component\<close> removes the first registry position whose listed name is the
  name of the component it is given, whether it returns or raises afterwards.
\<close>

lemma delete_component_removes:
  assumes "index_of (name (heap st ! a)) (all_items st) = Some idx"
    and "idx < length (all_comp st)"
  shows "all_comp (snd (delete_component x st a)) = del_at idx (all_comp st) \<and>
         all_items (snd (delete_component x st a)) = del_at idx (all_items st)"
proof -
  obtain oc st1 where r: "remove_item x st (name (heap st ! a)) = (oc, st1)"
    by (cases "remove_item x st (name (heap st ! a))")
  from remove_item_registry[OF assms, of x] r
  have st1: "all_comp st1 = del_at idx (all_comp st)" "all_items st1 = del_at idx (all_items st)"
    by simp_all
  show ?thesis
  proof (cases oc)
    case Returned
    with r st1 show ?thesis
      by (simp add: delete_component_def update_model_registry)
  next
    case (Raised e)
    with r st1 show ?thesis
      by (simp add: delete_component_def)
  qed
qed

lemma delete_component_registry:
  assumes "all_items st = map (\<lambda>a. name (heap st ! a)) (all_comp st)"
    and "distinct (all_items st)" and "i < length (all_comp st)"
  shows "all_comp (snd (delete_component x st (all_comp st ! i))) = del_at i (all_comp st) \<and>
         all_items (snd (delete_component x st (all_comp st ! i))) = del_at i (all_items st)"
proof -
  have "name (heap st ! (all_comp st ! i)) = all_items st ! i"
    using assms(1,3) by simp
  moreover have "i < length (all_items st)" using assms(1,3) by simp
  ultimately have "index_of (name (heap st ! (all_comp st ! i))) (all_items st) = Some i"
    using index_of_nth[OF assms(2)] by simp
  then show ?thesis
    using assms(3) by (rule delete_component_removes)
qed

lemma on_key_SD_target:
  assumes gid: "e_gid ev = Some w"
    and ex: "\<exists>a \<in> set (all_comp st). init_wrest (heap st ! a) = w"
  shows "\<exists>i < length (all_comp st).
           init_wrest (heap st ! (all_comp st ! i)) = w \<and>
           (\<forall>j < length (all_comp st). init_wrest (heap st ! (all_comp st ! j)) = w \<longrightarrow>
                \<bar>dvz st i + e_xdata ev\<bar> \<le> \<bar>dvz st j + e_xdata ev\<bar>) \<and>
           (\<forall>j < i. init_wrest (heap st ! (all_comp st ! j)) = w \<longrightarrow>
                \<bar>dvz st i + e_xdata ev\<bar> < \<bar>dvz st j + e_xdata ev\<bar>) \<and>
           on_key_SD x st ev =
             (if e_key ev = CHR ''S'' then (Returned, st\<lparr>fiddle := Some (all_comp st ! i)\<rparr>)
              else if e_key ev = CHR ''D'' then delete_component x st (all_comp st ! i)
              else (Returned, st))"
proof -
  define mtc where "mtc = matching st w"
  define ds where "ds = map (\<lambda>mt. \<bar>dvz st mt + e_xdata ev\<bar>) mtc"
  define k where "k = np_argmin ds"
  from ex obtain i0 where "i0 < length (all_comp st)" "init_wrest (heap st ! (all_comp st ! i0)) = w"
    by (auto simp: in_set_conv_nth)
  then have "i0 \<in> set mtc" by (simp add: mtc_def matching_set)
  then have ne: "mtc \<noteq> []" by auto
  then have k: "k < length mtc"
    using np_argmin_less[of ds] by (simp add: k_def ds_def)
  define i where "i = mtc ! k"
  have "i \<in> set mtc" using k by (simp add: i_def)
  then have i: "i < length (all_comp st)" "init_wrest (heap st ! (all_comp st ! i)) = w"
    by (simp_all add: mtc_def matching_set)
  have dk: "ds ! k = \<bar>dvz st i + e_xdata ev\<bar>"
    using k by (simp add: ds_def i_def)
  have least: "\<bar>dvz st i + e_xdata ev\<bar> \<le> \<bar>dvz st j + e_xdata ev\<bar>"
    if j: "j < length (all_comp st)" "init_wrest (heap st ! (all_comp st ! j)) = w" for j
  proof -
    from j have "j \<in> set mtc" by (simp add: mtc_def matching_set)
    then obtain q where q: "q < length mtc" "mtc ! q = j"
      by (auto simp: in_set_conv_nth)
    then have "ds ! k \<le> ds ! q"
      using np_argmin_le[of q ds] by (simp add: k_def ds_def)
    with q dk show ?thesis by (simp add: ds_def)
  qed
  have first: "\<bar>dvz st i + e_xdata ev\<bar> < \<bar>dvz st j + e_xdata ev\<bar>"
    if j: "j < i" "init_wrest (heap st ! (all_comp st ! j)) = w" for j
  proof -
    from j i have "j \<in> set mtc" by (simp add: mtc_def matching_set)
    then obtain q where q: "q < length mtc" "mtc ! q = j"
      by (auto simp: in_set_conv_nth)
    have "q < k"
    proof (rule ccontr)
      assume "\<not> q < k"
      then have "k \<le> q" by simp
      with matching_sorted[of st w] q(1) have "mtc ! k \<le> mtc ! q"
        unfolding mtc_def[symmetric]
        by (cases "k = q") (auto simp: sorted_wrt_iff_nth_less less_imp_le)
      with q(2) j(1) show False by (simp add: i_def)
    qed
    then have "ds ! k < ds ! q"
      using np_argmin_first[of q ds] by (simp add: k_def)
    with q dk show ?thesis by (simp add: ds_def)
  qed
  have run: "on_key_SD x st ev =
             (if e_key ev = CHR ''S'' then (Returned, st\<lparr>fiddle := Some (all_comp st ! i)\<rparr>)
              else if e_key ev = CHR ''D'' then delete_component x st (all_comp st ! i)
              else (Returned, st))"
    using gid ne
    by (simp add: on_key_SD_def Let_def mtc_def[symmetric] ds_def[symmetric] k_def[symmetric] i_def)
  from i least first run show ?thesis by blast
qed

lemma on_key_SD_no_match:
  assumes "\<forall>a \<in> set (all_comp st). init_wrest (heap st ! a) \<noteq> w"
  shows "on_key_SD x st (ev\<lparr>e_gid := Some w\<rparr>) = (Returned, st)"
proof -
  have "matching st w = []"
    using assms by (auto simp: matching_def filter_empty_conv)
  then show ?thesis by (simp add: on_key_SD_def)
qed

text \<open>
  What the handler does for the keys \<^verbatim>\<open>'S'\<close> and \<^verbatim>\<open>'D'\<close> in the panel of transition
  \<open>w\<close>. If no registry component is anchored at \<open>w\<close>, it returns with the state
  unchanged. Otherwise it picks a registry position \<open>i\<close> anchored at \<open>w\<close> whose
  \<open>\<bar>\<Delta>v + cursor offset\<bar>\<close>, with \<open>\<Delta>v = c (z - z\<^sub>c\<^sub>o\<^sub>m\<^sub>p) / (1 + z)\<close>, is least among the
  positions anchored at \<open>w\<close> (the first such position on ties). \<^verbatim>\<open>'S'\<close> makes that
  component the selected one and changes nothing else; \<^verbatim>\<open>'D'\<close> hands it to
  \<^verbatim>\<open>delete_component\<close>, which removes position \<open>i\<close> if the listed names are the
  names of the registry components and no two are equal.
\<close>

lemma on_key_SD_nearest:
  "(e_gid ev = Some w \<and> (\<forall>a \<in> set (all_comp st). init_wrest (heap st ! a) \<noteq> w)
      \<longrightarrow> on_key_SD x st ev = (Returned, st)) \<and>
   (e_gid ev = Some w \<and> (\<exists>a \<in> set (all_comp st). init_wrest (heap st ! a) = w)
      \<longrightarrow> (\<exists>i < length (all_comp st).
             init_wrest (heap st ! (all_comp st ! i)) = w \<and>
             dvz st i = c_mks * (g_z st - zcomp (heap st ! (all_comp st ! i))) / (1 + g_z st) \<and>
             (\<forall>j < length (all_comp st). init_wrest (heap st ! (all_comp st ! j)) = w \<longrightarrow>
                  \<bar>dvz st i + e_xdata ev\<bar> \<le> \<bar>dvz st j + e_xdata ev\<bar>) \<and>
             (\<forall>j < i. init_wrest (heap st ! (all_comp st ! j)) = w \<longrightarrow>
                  \<bar>dvz st i + e_xdata ev\<bar> < \<bar>dvz st j + e_xdata ev\<bar>) \<and>
             (e_key ev = CHR ''S'' \<longrightarrow>
                on_key_SD x st ev = (Returned, st\<lparr>fiddle := Some (all_comp st ! i)\<rparr>)) \<and>
             (e_key ev = CHR ''D'' \<longrightarrow>
                on_key_SD x st ev = delete_component x st (all_comp st ! i) \<and>
                (all_items st = map (\<lambda>a. name (heap st ! a)) (all_comp st) \<and>
                 distinct (all_items st) \<longrightarrow>
                   all_comp (snd (on_key_SD x st ev)) = del_at i (all_comp st) \<and>
                   all_items (snd (on_key_SD x st ev)) = del_at i (all_items st)))))"
proof (intro conjI impI)
  assume a: "e_gid ev = Some w \<and> (\<forall>a \<in> set (all_comp st). init_wrest (heap st ! a) \<noteq> w)"
  then have "ev = ev\<lparr>e_gid := Some w\<rparr>" by simp
  with a on_key_SD_no_match[of st w x ev] show "on_key_SD x st ev = (Returned, st)"
    by simp
next
  assume a: "e_gid ev = Some w \<and> (\<exists>a \<in> set (all_comp st). init_wrest (heap st ! a) = w)"
  then have gid: "e_gid ev = Some w"
    and ex: "\<exists>a \<in> set (all_comp st). init_wrest (heap st ! a) = w" by simp_all
  from on_key_SD_target[OF gid ex, of x] obtain i where i:
    "i < length (all_comp st)" "init_wrest (heap st ! (all_comp st ! i)) = w"
    "\<forall>j < length (all_comp st). init_wrest (heap st ! (all_comp st ! j)) = w \<longrightarrow>
                \<bar>dvz st i + e_xdata ev\<bar> \<le> \<bar>dvz st j + e_xdata ev\<bar>"
    "\<forall>j < i. init_wrest (heap st ! (all_comp st ! j)) = w \<longrightarrow>
                \<bar>dvz st i + e_xdata ev\<bar> < \<bar>dvz st j + e_xdata ev\<bar>"
    "on_key_SD x st ev =
             (if e_key ev = CHR ''S'' then (Returned, st\<lparr>fiddle := Some (all_comp st ! i)\<rparr>)
              else if e_key ev = CHR ''D'' then delete_component x st (all_comp st ! i)
              else (Returned, st))"
    by blast
  have S: "e_key ev = CHR ''S'' \<longrightarrow>
             on_key_SD x st ev = (Returned, st\<lparr>fiddle := Some (all_comp st ! i)\<rparr>)"
    using i(5) by simp
  have D: "e_key ev = CHR ''D'' \<longrightarrow>
                on_key_SD x st ev = delete_component x st (all_comp st ! i) \<and>
                (all_items st = map (\<lambda>a. name (heap st ! a)) (all_comp st) \<and>
                 distinct (all_items st) \<longrightarrow>
                   all_comp (snd (on_key_SD x st ev)) = del_at i (all_comp st) \<and>
                   all_items (snd (on_key_SD x st ev)) = del_at i (all_items st))"
  proof (intro impI conjI)
    assume d: "e_key ev = CHR ''D''"
    then show eq: "on_key_SD x st ev = delete_component x st (all_comp st ! i)"
      using i(5) by simp
    assume al: "all_items st = map (\<lambda>a. name (heap st ! a)) (all_comp st) \<and>
                 distinct (all_items st)"
    then have a1: "all_items st = map (\<lambda>a. name (heap st ! a)) (all_comp st)"
      and a2: "distinct (all_items st)" by blast+
    from delete_component_registry[OF a1 a2 i(1), of x]
    show "all_comp (snd (on_key_SD x st ev)) = del_at i (all_comp st)"
      and "all_items (snd (on_key_SD x st ev)) = del_at i (all_items st)"
      unfolding eq by blast+
  qed
  have F: "dvz st i = c_mks * (g_z st - zcomp (heap st ! (all_comp st ! i))) / (1 + g_z st)"
    by (simp add: dvz_def)
  from i(1-4) S D F
  show "\<exists>i < length (all_comp st).
             init_wrest (heap st ! (all_comp st ! i)) = w \<and>
             dvz st i = c_mks * (g_z st - zcomp (heap st ! (all_comp st ! i))) / (1 + g_z st) \<and>
             (\<forall>j < length (all_comp st). init_wrest (heap st ! (all_comp st ! j)) = w \<longrightarrow>
                  \<bar>dvz st i + e_xdata ev\<bar> \<le> \<bar>dvz st j + e_xdata ev\<bar>) \<and>
             (\<forall>j < i. init_wrest (heap st ! (all_comp st ! j)) = w \<longrightarrow>
                  \<bar>dvz st i + e_xdata ev\<bar> < \<bar>dvz st j + e_xdata ev\<bar>) \<and>
             (e_key ev = CHR ''S'' \<longrightarrow>
                on_key_SD x st ev = (Returned, st\<lparr>fiddle := Some (all_comp st ! i)\<rparr>)) \<and>
             (e_key ev = CHR ''D'' \<longrightarrow>
                on_key_SD x st ev = delete_component x st (all_comp st ! i) \<and>
                (all_items st = map (\<lambda>a. name (heap st ! a)) (all_comp st) \<and>
                 distinct (all_items st) \<longrightarrow>
                   all_comp (snd (on_key_SD x st ev)) = del_at i (all_comp st) \<and>
                   all_items (snd (on_key_SD x st ev)) = del_at i (all_items st)))"
    by blast
qed

lemma ex_two_facts:
  "all_comp ex_two = [0, 1]"
  "all_items ex_two = [''z0.00000_HI'', ''z0.00100_HI'']"
  "init_wrest (heap ex_two ! 0) = 1000" "init_wrest (heap ex_two ! Suc 0) = 1000"
  "name (heap ex_two ! 0) = ''z0.00000_HI''" "name (heap ex_two ! Suc 0) = ''z0.00100_HI''"
  "zcomp (heap ex_two ! 0) = 0" "zcomp (heap ex_two ! Suc 0) = 0.001"
  "g_z ex_two = 0"
  by (simp_all add: ex_two_def ex_comp_z_def ex_comp_def)

lemma ex_two_dvz: "dvz ex_two 0 = 0" "dvz ex_two (Suc 0) = - 299.792458"
  by (simp_all add: dvz_def ex_two_facts c_mks_def)

lemma on_key_SD_nearest_example:
  "e_gid (ex_event CHR ''S'') = Some 1000 \<and>
   map (\<lambda>a. init_wrest (heap ex_two ! a)) (all_comp ex_two) = [1000, 1000] \<and>
   on_key_SD ex_x ex_two (ex_event CHR ''S'') = (Returned, ex_two\<lparr>fiddle := Some 1\<rparr>) \<and>
   all_items ex_two = map (\<lambda>a. name (heap ex_two ! a)) (all_comp ex_two) \<and>
   distinct (all_items ex_two) \<and>
   all_comp (snd (on_key_SD ex_x ex_two (ex_event CHR ''D''))) = [0] \<and>
   on_key_SD ex_x ex_two ((ex_event CHR ''D'')\<lparr>e_gid := Some 1216\<rparr>) = (Returned, ex_two)"
proof -
  have gid: "e_gid (ex_event k) = Some 1000" "e_xdata (ex_event k) = 250" "e_key (ex_event k) = k" for k
    by (simp_all add: ex_event_def)
  have ex: "\<exists>a \<in> set (all_comp ex_two). init_wrest (heap ex_two ! a) = 1000"
    by (simp add: ex_two_facts)
  have al: "all_items ex_two = map (\<lambda>a. name (heap ex_two ! a)) (all_comp ex_two)"
    "distinct (all_items ex_two)"
    by (simp_all add: ex_two_facts)
  have no: "\<forall>a \<in> set (all_comp ex_two). init_wrest (heap ex_two ! a) \<noteq> 1216"
    by (simp add: ex_two_facts)
  have pick: "i = Suc 0" if "i < length (all_comp ex_two)"
    "\<forall>j < length (all_comp ex_two). init_wrest (heap ex_two ! (all_comp ex_two ! j)) = 1000 \<longrightarrow>
        \<bar>dvz ex_two i + 250\<bar> \<le> \<bar>dvz ex_two j + 250\<bar>" for i
  proof (rule ccontr)
    assume "i \<noteq> Suc 0"
    with that(1) have "i = 0" by (simp add: ex_two_facts)
    with that(2)[rule_format, of "Suc 0"] show False
      by (simp add: ex_two_facts ex_two_dvz)
  qed
  from on_key_SD_nearest[of "ex_event CHR ''S''" 1000 ex_two ex_x] gid ex
  obtain i where i: "i < length (all_comp ex_two)"
    "\<forall>j < length (all_comp ex_two). init_wrest (heap ex_two ! (all_comp ex_two ! j)) = 1000 \<longrightarrow>
        \<bar>dvz ex_two i + 250\<bar> \<le> \<bar>dvz ex_two j + 250\<bar>"
    "on_key_SD ex_x ex_two (ex_event CHR ''S'') = (Returned, ex_two\<lparr>fiddle := Some (all_comp ex_two ! i)\<rparr>)"
    by auto
  from pick[OF i(1,2)] i(3) have S: "on_key_SD ex_x ex_two (ex_event CHR ''S'') = (Returned, ex_two\<lparr>fiddle := Some 1\<rparr>)"
    by (simp add: ex_two_facts)
  from on_key_SD_nearest[of "ex_event CHR ''D''" 1000 ex_two ex_x] gid ex al
  obtain k where k: "k < length (all_comp ex_two)"
    "\<forall>j < length (all_comp ex_two). init_wrest (heap ex_two ! (all_comp ex_two ! j)) = 1000 \<longrightarrow>
        \<bar>dvz ex_two k + 250\<bar> \<le> \<bar>dvz ex_two j + 250\<bar>"
    "all_comp (snd (on_key_SD ex_x ex_two (ex_event CHR ''D''))) = del_at k (all_comp ex_two)"
    by auto
  from pick[OF k(1,2)] k(3) have D: "all_comp (snd (on_key_SD ex_x ex_two (ex_event CHR ''D''))) = [0]"
    by (simp add: ex_two_facts del_at_def)
  from on_key_SD_nearest[of "(ex_event CHR ''D'')\<lparr>e_gid := Some 1216\<rparr>" 1216 ex_two ex_x] no
  have N: "on_key_SD ex_x ex_two ((ex_event CHR ''D'')\<lparr>e_gid := Some 1216\<rparr>) = (Returned, ex_two)"
    by simp
  have ws: "map (\<lambda>a. init_wrest (heap ex_two ! a)) (all_comp ex_two) = [1000, 1000]"
    by (simp add: ex_two_facts)
  from gid ws S al D N show ?thesis by simp
qed

lemma ex_dup_facts:
  "all_comp ex_dup = [0, 1]"
  "all_items ex_dup = [''z0.00000_HI'', ''z0.00000_HI'']"
  "init_wrest (heap ex_dup ! 0) = 1200" "init_wrest (heap ex_dup ! Suc 0) = 1000"
  "name (heap ex_dup ! 0) = ''z0.00000_HI''" "name (heap ex_dup ! Suc 0) = ''z0.00000_HI''"
  by (simp_all add: ex_dup_def ex_two_def ex_comp_z_def ex_comp_def)

lemma ex_dup_matching: "matching ex_dup 1000 = [1]"
  by (simp add: matching_def ex_dup_facts upt_rec)

text \<open>
  Claim C7. The help text of the tool says of \<^verbatim>\<open>'D'\<close> that it deletes the component
  closest to the cursor, in the panel where the component was defined, and the handler
  passes that component to \<^verbatim>\<open>delete_component\<close>. But \<^verbatim>\<open>remove_item\<close> looks the
  component up by its name and removes the first registry entry with that name. In the
  session with two components named \<^verbatim>\<open>z0.00000_HI\<close>, \<^verbatim>\<open>'D'\<close> in the panel of
  1000 Angstrom finds the second component, the only one anchored there, and what is
  removed is the first one, anchored at 1200 Angstrom: the component under the cursor
  is still in the registry afterwards, whatever the list widget reports as selected
  and whether the call returns or raises.
\<close>

theorem on_key_D_removes_other_component:
  "e_gid (ex_event CHR ''D'') = Some 1000 \<and>
   map (\<lambda>a. init_wrest (heap ex_dup ! a)) (all_comp ex_dup) = [1200, 1000] \<and>
   matching ex_dup 1000 = [1] \<and>
   all_comp ex_dup = [0, 1] \<and>
   all_comp (snd (on_key_SD x ex_dup (ex_event CHR ''D''))) = [1] \<and>
   all_items (snd (on_key_SD x ex_dup (ex_event CHR ''D''))) = [''z0.00000_HI'']"
proof -
  have ev: "e_gid (ex_event CHR ''D'') = Some 1000" "e_key (ex_event CHR ''D'') = CHR ''D''"
    by (simp_all add: ex_event_def)
  have run: "on_key_SD x ex_dup (ex_event CHR ''D'') = delete_component x ex_dup 1"
    by (simp add: on_key_SD_def ev ex_dup_matching ex_dup_facts Let_def)
  have idx: "index_of (name (heap ex_dup ! 1)) (all_items ex_dup) = Some 0"
    by (simp add: ex_dup_facts)
  have "0 < length (all_comp ex_dup)" by (simp add: ex_dup_facts)
  from delete_component_removes[OF idx this, of x]
  have "all_comp (snd (delete_component x ex_dup 1)) = [1]"
    "all_items (snd (delete_component x ex_dup 1)) = [''z0.00000_HI'']"
    by (simp_all add: ex_dup_facts del_at_def)
  with run ev show ?thesis
    by (simp add: ex_dup_matching ex_dup_facts)
qed

section \<open>Properties of persistence\<close>

subsection \<open>The loops in closed form\<close>

lemma keep_lines_zip:
  "ii + length ls \<le> length msk \<Longrightarrow>
   keep_lines msk ii ls =
     Inr (map fst (filter (\<lambda>p. snd p \<noteq> 0) (zip ls (drop ii msk))),
          map snd (filter (\<lambda>p. snd p \<noteq> 0) (zip ls (drop ii msk))))"
proof (induction ls arbitrary: ii)
  case Nil
  then show ?case by simp
next
  case (Cons l ls)
  then have lt: "ii < length msk" and rest: "Suc ii + length ls \<le> length msk"
    by simp_all
  have d: "drop ii msk = msk ! ii # drop (Suc ii) msk"
    using lt by (simp add: Cons_nth_drop_Suc)
  show ?case
    using Cons.IH[OF rest] lt by (simp add: d)
qed

lemma keep_lines_stripped:
  "length (abslines c) \<le> length (mask_abslines c) \<Longrightarrow>
   keep_lines (mask_abslines c) 0 (abslines c) = Inr (map fst (kept c), map snd (kept c))"
  using keep_lines_zip[of 0 "abslines c" "mask_abslines c"] by (simp add: kept_def)

lemma stripped_simps:
  "name (stripped c) = name c" "zcomp (stripped c) = zcomp c" "vlim (stripped c) = vlim c"
  "init_wrest (stripped c) = init_wrest c" "attrib (stripped c) = attrib c"
  "comment (stripped c) = comment c"
  "abslines (stripped c) = map fst (kept c)" "mask_abslines (stripped c) = map snd (kept c)"
  by (simp_all add: stripped_def)

lemma stripped_lengths: "length (abslines (stripped c)) = length (mask_abslines (stripped c))"
  by (simp add: stripped_simps)

lemma mask_loop_masked:
  assumes "length ls \<le> length m"
  shows "mask_loop mw ls 0 m = Inr (masked mw ls m)"
proof -
  from mask_loop_ok[of 0 ls m mw] assms obtain m' where m': "mask_loop mw ls 0 m = Inr m'"
    by auto
  have len: "length m' = length m" using m' by (rule mask_loop_length)
  have "m' = masked mw ls m"
  proof (rule nth_equalityI)
    show "length m' = length (masked mw ls m)"
      using len assms by (simp add: masked_def)
  next
    fix j assume j: "j < length m'"
    show "m' ! j = masked mw ls m ! j"
    proof (cases "j < length ls")
      case True
      with mask_loop_nth[OF m' True] assms show ?thesis
        by (simp add: masked_def nth_append)
    next
      case False
      with mask_loop_after[OF m', of j] assms j len show ?thesis
        by (simp add: masked_def nth_append min_def)
    qed
  qed
  with m' show ?thesis by simp
qed

lemma dict_set_fresh: "k \<notin> fst ` set d \<Longrightarrow> dict_set k v d = d @ [(k, v)]"
  by (induction d) auto

lemma write_comps_run:
  assumes "\<forall>a \<in> set as. a < length h \<and>
             length (abslines (h ! a)) \<le> length (mask_abslines (h ! a))"
    and "distinct as"
    and "distinct (map fst d @ map (\<lambda>a. name (h ! a)) as)"
  shows "\<exists>h'. write_comps as h d =
           (Returned, h', d @ map (\<lambda>a. (name (h ! a), out_record (stripped (h ! a)))) as)"
  using assms
proof (induction as arbitrary: h d)
  case Nil
  then show ?case by simp
next
  case (Cons a as)
  define c where "c = stripped (h ! a)"
  define h1 where "h1 = h[a := c]"
  define d1 where "d1 = d @ [(name (h ! a), out_record c)]"
  from Cons.prems(1) have a: "a < length h"
    "length (abslines (h ! a)) \<le> length (mask_abslines (h ! a))" by simp_all
  have kl: "keep_lines (mask_abslines (h ! a)) 0 (abslines (h ! a))
            = Inr (map fst (kept (h ! a)), map snd (kept (h ! a)))"
    using a(2) by (rule keep_lines_stripped)
  have fresh: "name (h ! a) \<notin> fst ` set d"
    using Cons.prems(3) by auto
  have step: "write_comps (a # as) h d = write_comps as h1 d1"
    using kl dict_set_fresh[OF fresh]
    by (simp add: c_def h1_def d1_def stripped_def Let_def)
  have same: "h1 ! b = h ! b" if "b \<in> set as" for b
  proof -
    from that Cons.prems(2) have "a \<noteq> b" by auto
    then show ?thesis by (simp add: h1_def)
  qed
  have p1: "\<forall>b \<in> set as. b < length h1 \<and>
             length (abslines (h1 ! b)) \<le> length (mask_abslines (h1 ! b))"
    using Cons.prems(1) same by (simp add: h1_def)
  have p2: "distinct as" using Cons.prems(2) by simp
  have names: "map (\<lambda>b. name (h1 ! b)) as = map (\<lambda>b. name (h ! b)) as"
    using same by simp
  have p3: "distinct (map fst d1 @ map (\<lambda>b. name (h1 ! b)) as)"
    using Cons.prems(3) by (simp add: names d1_def)
  from Cons.IH[OF p1 p2 p3] obtain h' where
    h': "write_comps as h1 d1 =
           (Returned, h', d1 @ map (\<lambda>b. (name (h1 ! b), out_record (stripped (h1 ! b)))) as)"
    by blast
  have "map (\<lambda>b. (name (h1 ! b), out_record (stripped (h1 ! b)))) as
        = map (\<lambda>b. (name (h ! b), out_record (stripped (h ! b)))) as"
    using same by simp
  with h' step show ?case
    by (simp add: d1_def c_def)
qed

lemma map_nth_append_upt:
  "map (\<lambda>a. g ((xs @ ys) ! a)) [length xs ..< length xs + length ys] = map g ys"
  by (rule nth_equalityI) (simp_all add: nth_append)

lemma insort_key_map:
  "insort_key f (g y) (map g ys) = map g (insort_key (\<lambda>z. f (g z)) y ys)"
  by (induction ys) simp_all

lemma sort_key_map: "sort_key f (map g ys) = map g (sort_key (\<lambda>z. f (g z)) ys)"
  by (induction ys) (simp_all add: insort_key_map)

lemma write_out_run:
  assumes "\<forall>a \<in> set (all_comp st).
             length (abslines (heap st ! a)) \<le> length (mask_abslines (heap st ! a))"
    and "distinct (map (\<lambda>a. name (heap st ! a)) (all_comp st))"
  shows "\<exists>h. write_out st =
           (Returned, st\<lparr>heap := h\<rparr>,
            Some \<lparr>f_fwhm = g_fwhm st, f_spec_file = spec_filename st,
                  f_bad_pixels = Some (where_one (spec_bad_pixels st)),
                  f_cmps = sort_key fst
                             (map (\<lambda>a. (name (heap st ! a), out_record (stripped (heap st ! a))))
                                  (all_comp st))\<rparr>)"
proof -
  define cs where "cs = map (\<lambda>a. heap st ! a) (all_comp st)"
  define h0 where "h0 = heap st @ cs"
  define aux where "aux = [length (heap st) ..< length (heap st) + length cs]"
  have nth: "h0 ! a = cs ! (a - length (heap st))" if "a \<in> set aux" for a
    using that by (auto simp: h0_def aux_def nth_append)
  have q1: "\<forall>a \<in> set aux. a < length h0 \<and>
             length (abslines (h0 ! a)) \<le> length (mask_abslines (h0 ! a))"
  proof
    fix a assume a: "a \<in> set aux"
    then have i: "a - length (heap st) < length (all_comp st)" "a < length h0"
      by (auto simp: aux_def cs_def h0_def)
    then have "cs ! (a - length (heap st)) = heap st ! (all_comp st ! (a - length (heap st)))"
      by (simp add: cs_def)
    with assms(1) i nth[OF a] show "a < length h0 \<and>
             length (abslines (h0 ! a)) \<le> length (mask_abslines (h0 ! a))"
      by simp
  qed
  have q2: "distinct aux" by (simp add: aux_def)
  have nm: "map (\<lambda>a. name (h0 ! a)) aux = map name cs"
    unfolding h0_def aux_def by (rule map_nth_append_upt)
  have q3: "distinct (map fst ([] :: (string \<times> cmp_record) list) @ map (\<lambda>a. name (h0 ! a)) aux)"
    using assms(2) by (simp add: nm cs_def comp_def)
  from write_comps_run[OF q1 q2 q3] obtain h' where
    h': "write_comps aux h0 [] =
           (Returned, h', map (\<lambda>a. (name (h0 ! a), out_record (stripped (h0 ! a)))) aux)"
    by auto
  have "map (\<lambda>a. (name (h0 ! a), out_record (stripped (h0 ! a)))) aux
        = map (\<lambda>c. (name c, out_record (stripped c))) cs"
    unfolding h0_def aux_def by (rule map_nth_append_upt)
  also have "\<dots> = map (\<lambda>a. (name (heap st ! a), out_record (stripped (heap st ! a)))) (all_comp st)"
    by (simp add: cs_def comp_def)
  finally have d: "map (\<lambda>a. (name (h0 ! a), out_record (stripped (h0 ! a)))) aux
        = map (\<lambda>a. (name (heap st ! a), out_record (stripped (heap st ! a)))) (all_comp st)" .
  have "write_out st =
           (Returned, st\<lparr>heap := h'\<rparr>,
            Some \<lparr>f_fwhm = g_fwhm st, f_spec_file = spec_filename st,
                  f_bad_pixels = Some (where_one (spec_bad_pixels st)),
                  f_cmps = sort_key fst
                             (map (\<lambda>a. (name (heap st ! a), out_record (stripped (heap st ! a))))
                                  (all_comp st))\<rparr>)"
    using h' d by (simp add: write_out_def Let_def h0_def aux_def cs_def)
  then show ?thesis by blast
qed

lemma grow_fields:
  "heap (grow st cs ns) = heap st @ cs"
  "all_comp (grow st cs ns) = all_comp st @ [length (heap st) ..< length (heap st) + length cs]"
  "all_items (grow st cs ns) = all_items st @ ns"
  "current_comp (grow st cs ns) = Some (length (heap st) + length cs - 1)"
  "g_min_ew (grow st cs ns) = g_min_ew st"
  "g_fwhm (grow st cs ns) = g_fwhm st"
  "spec_wavelength (grow st cs ns) = spec_wavelength st"
  by (simp_all add: grow_def)

lemma grow_grow:
  "grow (grow st [c] [n]) cs ns = grow st (c # cs) (n # ns)"
proof -
  have "[length (heap st) ..< Suc (length (heap st) + length cs)]
        = length (heap st) # [Suc (length (heap st)) ..< Suc (length (heap st) + length cs)]"
    by (rule upt_conv_Cons) simp
  moreover have "[length (heap st) ..< Suc (length (heap st))] = [length (heap st)]"
    by simp
  ultimately show ?thesis by (simp add: grow_def del: upt_Suc)
qed

lemma read_cmp_out_record:
  assumes "length (abslines c) \<le> length (mask_abslines c)"
  shows "read_cmp x st (name c, out_record c)
         = (Returned, grow st [reload (g_min_ew st) c] [name c], [])"
proof -
  define ls where "ls = map (\<lambda>line. line\<lparr>l_logN := a_logN (attrib c), l_b := a_b (attrib c),
                                  l_z := a_z (attrib c)\<rparr>) (abslines c)"
  have ml: "mask_loop mw ls 0 (mask_abslines c) = Inr (masked mw ls (mask_abslines c))" for mw
    using assms by (intro mask_loop_masked) (simp add: ls_def)
  show ?thesis
    unfolding read_cmp_def
    by (simp add: out_record_def to_dict_def from_dict_def comp_init_attrib_def
        add_component_def reliability_of_def sync_comp_lines_def mask_comp_lines_def
        ml[unfolded ls_def] grow_def reload_def Let_def)
qed

lemma read_cmps_out:
  assumes "\<forall>c \<in> set cs. length (abslines c) \<le> length (mask_abslines c)" and "cs \<noteq> []"
  shows "read_cmps x st (map (\<lambda>c. (name c, out_record c)) cs)
         = (Returned, grow st (map (reload (g_min_ew st)) cs) (map name cs), [])"
  using assms
proof (induction cs arbitrary: st)
  case Nil
  then show ?case by simp
next
  case (Cons c cs)
  from Cons.prems(1) have c: "length (abslines c) \<le> length (mask_abslines c)" by simp
  note one = read_cmp_out_record[OF c, of x st]
  show ?case
  proof (cases "cs = []")
    case True
    with one show ?thesis by simp
  next
    case False
    from Cons.prems(1) have "\<forall>c \<in> set cs. length (abslines c) \<le> length (mask_abslines c)"
      by simp
    from Cons.IH[OF this False, of "grow st [reload (g_min_ew st) c] [name c]"] one
    show ?thesis
      by (simp add: grow_grow grow_fields)
  qed
qed

lemma collect_lines_ok:
  "ii + length ls \<le> length msk \<Longrightarrow>
   \<exists>ls' gd. collect_lines lo hi msk ii ls = (Returned, ls', gd) \<and>
            map (\<lambda>l. l\<lparr>l_N := 0\<rparr>) ls' = map (\<lambda>l. l\<lparr>l_N := 0\<rparr>) ls"
proof (induction ls arbitrary: ii)
  case Nil
  then show ?case by simp
next
  case (Cons l ls)
  then have lt: "ii < length msk" and rest: "Suc ii + length ls \<le> length msk"
    by simp_all
  from Cons.IH[OF rest] obtain ls' gd where
    r: "collect_lines lo hi msk (Suc ii) ls = (Returned, ls', gd)"
       "map (\<lambda>l. l\<lparr>l_N := 0\<rparr>) ls' = map (\<lambda>l. l\<lparr>l_N := 0\<rparr>) ls"
    by blast
  show ?case
    using lt r by (simp add: Let_def)
qed

lemma forget_N_fields:
  assumes "forget_N c' = forget_N c"
  shows "name c' = name c" "zcomp c' = zcomp c" "vlim c' = vlim c"
    "init_wrest c' = init_wrest c" "attrib c' = attrib c" "comment c' = comment c"
    "mask_abslines c' = mask_abslines c" "length (abslines c') = length (abslines c)"
proof -
  show "name c' = name c" using arg_cong[OF assms, of name] by (simp add: forget_N_def)
  show "zcomp c' = zcomp c" using arg_cong[OF assms, of zcomp] by (simp add: forget_N_def)
  show "vlim c' = vlim c" using arg_cong[OF assms, of vlim] by (simp add: forget_N_def)
  show "init_wrest c' = init_wrest c"
    using arg_cong[OF assms, of init_wrest] by (simp add: forget_N_def)
  show "attrib c' = attrib c" using arg_cong[OF assms, of attrib] by (simp add: forget_N_def)
  show "comment c' = comment c" using arg_cong[OF assms, of comment] by (simp add: forget_N_def)
  show "mask_abslines c' = mask_abslines c"
    using arg_cong[OF assms, of mask_abslines] by (simp add: forget_N_def)
  show "length (abslines c') = length (abslines c)"
    using arg_cong[OF assms, of "\<lambda>c. length (abslines c)"] by (simp add: forget_N_def)
qed

lemma collect_comps_ok:
  assumes "\<forall>a \<in> set as. a < length h \<and>
             length (abslines (h ! a)) \<le> length (mask_abslines (h ! a))"
  shows "\<exists>h' gd. collect_comps lo hi as h = (Returned, h', gd) \<and>
                 map forget_N h' = map forget_N h"
  using assms
proof (induction as arbitrary: h)
  case Nil
  then show ?case by simp
next
  case (Cons a as)
  from Cons.prems have a: "a < length h"
    "length (abslines (h ! a)) \<le> length (mask_abslines (h ! a))" by simp_all
  from collect_lines_ok[of 0 "abslines (h ! a)" "mask_abslines (h ! a)" lo hi] a(2)
  obtain ls' gd where
    r: "collect_lines lo hi (mask_abslines (h ! a)) 0 (abslines (h ! a)) = (Returned, ls', gd)"
       "map (\<lambda>l. l\<lparr>l_N := 0\<rparr>) ls' = map (\<lambda>l. l\<lparr>l_N := 0\<rparr>) (abslines (h ! a))"
    by auto
  define h1 where "h1 = h[a := (h ! a)\<lparr>abslines := ls'\<rparr>]"
  have fa: "forget_N ((h ! a)\<lparr>abslines := ls'\<rparr>) = forget_N (h ! a)"
    using r(2) by (simp add: forget_N_def)
  have m1: "map forget_N h1 = map forget_N h"
    using a(1) fa by (simp add: h1_def map_update list_update_same_conv)
  have len1: "length h1 = length h" by (simp add: h1_def)
  have p: "\<forall>b \<in> set as. b < length h1 \<and>
             length (abslines (h1 ! b)) \<le> length (mask_abslines (h1 ! b))"
  proof
    fix b assume b: "b \<in> set as"
    with Cons.prems have bh: "b < length h"
      "length (abslines (h ! b)) \<le> length (mask_abslines (h ! b))" by simp_all
    have "forget_N (h1 ! b) = forget_N (h ! b)"
      using arg_cong[OF m1, of "\<lambda>xs. xs ! b"] bh(1) len1 by simp
    from forget_N_fields(7,8)[OF this] bh len1
    show "b < length h1 \<and> length (abslines (h1 ! b)) \<le> length (mask_abslines (h1 ! b))"
      by simp
  qed
  from Cons.IH[OF p] obtain h' gd' where
    r2: "collect_comps lo hi as h1 = (Returned, h', gd')" "map forget_N h' = map forget_N h1"
    by blast
  show ?case
    using r(1) r2 m1 by (simp add: h1_def[symmetric] Let_def)
qed

lemma update_model_ok:
  assumes "\<forall>a \<in> set (all_comp st). a < length (heap st) \<and>
             length (abslines (heap st ! a)) \<le> length (mask_abslines (heap st ! a))"
    and "spec_wavelength st \<noteq> []"
  shows "\<exists>st'. update_model x st = (Returned, st') \<and>
               map forget_N (heap st') = map forget_N (heap st) \<and>
               all_comp st' = all_comp st \<and> all_items st' = all_items st \<and>
               current_comp st' = current_comp st"
proof (cases "all_comp st = []")
  case True
  then show ?thesis by (simp add: update_model_def)
next
  case False
  from collect_comps_ok[OF assms(1), of "np_min (spec_wavelength st)" "np_max (spec_wavelength st)"]
  obtain h' gd where
    r: "collect_comps (np_min (spec_wavelength st)) (np_max (spec_wavelength st))
          (all_comp st) (heap st) = (Returned, h', gd)"
       "map forget_N h' = map forget_N (heap st)"
    by blast
  show ?thesis
    using False assms(2) r
    by (simp add: update_model_def Let_def set_residuals_def)
qed

lemma set_bad_where_one:
  assumes "length bp0 = length bp"
  shows "\<exists>bp'. set_bad bp0 (where_one bp) = Inr bp' \<and> length bp' = length bp0"
proof -
  have "list_all (\<lambda>i. - int (length bp0) \<le> i \<and> i < int (length bp0)) (where_one bp)"
    using assms by (auto simp: where_one_def list_all_iff)
  moreover have "length (fold (\<lambda>i b. b[f i := 1]) xs b0) = length b0" for f xs and b0 :: "int list"
    by (induction xs arbitrary: b0) simp_all
  ultimately show ?thesis
    by (simp add: set_bad_def Let_def)
qed

lemma masked_length: "length ls \<le> length m \<Longrightarrow> length (masked mw ls m) = length m"
  by (simp add: masked_def)

lemma reload_lengths:
  "length (abslines c) \<le> length (mask_abslines c) \<Longrightarrow>
   length (abslines (reload mw c)) = length (abslines c) \<and>
   length (mask_abslines (reload mw c)) = length (mask_abslines c)"
  by (simp add: reload_def Let_def masked_length)

subsection \<open>Writing, then reading\<close>

lemma read_order_set:
  "set (read_order x st) = (\<lambda>a. stripped (heap st ! a)) ` set (all_comp st)"
  "length (read_order x st) = length (all_comp st)"
  by (simp_all add: read_order_def)

lemma roundtrip:
  assumes masks: "\<forall>a \<in> set (all_comp st).
             length (abslines (heap st ! a)) \<le> length (mask_abslines (heap st ! a))"
    and names: "distinct (map (\<lambda>a. name (heap st ! a)) (all_comp st))"
    and nonempty: "all_comp st \<noteq> []"
    and fwhm: "g_fwhm st0 = g_fwhm st"
    and bp: "length (spec_bad_pixels st0) = length (spec_bad_pixels st)"
    and fresh: "all_comp st0 = []"
    and wl: "spec_wavelength st0 \<noteq> []"
  shows "\<exists>h doc st2 w.
           write_out st = (Returned, st\<lparr>heap := h\<rparr>, Some doc) \<and>
           f_cmps doc = sort_key fst
                          (map (\<lambda>a. (name (heap st ! a), out_record (stripped (heap st ! a))))
                               (all_comp st)) \<and>
           read_previous x st0 doc = (Returned, st2, w) \<and>
           all_comp st2 = [length (heap st0) ..< length (heap st0) + length (all_comp st)] \<and>
           (\<forall>j < length (all_comp st).
              forget_N (heap st2 ! (length (heap st0) + j))
              = forget_N (reload (g_min_ew st0) (read_order x st ! j)))"
proof -
  define cs0 where "cs0 = map (\<lambda>a. stripped (heap st ! a)) (all_comp st)"
  define cs where "cs = read_order x st"
  define doc where "doc = \<lparr>f_fwhm = g_fwhm st, f_spec_file = spec_filename st,
                  f_bad_pixels = Some (where_one (spec_bad_pixels st)),
                  f_cmps = sort_key fst (map (\<lambda>c. (name c, out_record c)) cs0)\<rparr>"
  have cmps: "map (\<lambda>a. (name (heap st ! a), out_record (stripped (heap st ! a)))) (all_comp st)
              = map (\<lambda>c. (name c, out_record c)) cs0"
    by (simp add: cs0_def comp_def stripped_simps)
  from write_out_run[OF masks names] obtain h where
    w: "write_out st = (Returned, st\<lparr>heap := h\<rparr>, Some doc)"
    unfolding cmps doc_def by blast
  have items: "dict_items x (f_cmps doc) = map (\<lambda>c. (name c, out_record c)) cs"
    by (simp add: dict_items_def doc_def sort_key_map cs_def read_order_def cs0_def)
  from set_bad_where_one[OF bp] obtain bp' where
    bp': "set_bad (spec_bad_pixels st0) (where_one (spec_bad_pixels st)) = Inr bp'"
    by blast
  define st1 where "st1 = st0\<lparr>spec_bad_pixels := bp'\<rparr>"
  define rs where "rs = map (reload (g_min_ew st0)) cs"
  define st2 where "st2 = grow st1 rs (map name cs)"
  have k: "length cs = length (all_comp st)" "length rs = length (all_comp st)"
    by (simp_all add: cs_def rs_def read_order_set)
  have cs_ok: "\<forall>c \<in> set cs. length (abslines c) \<le> length (mask_abslines c)"
    by (auto simp: cs_def read_order_set stripped_simps)
  have cs_ne: "cs \<noteq> []" using nonempty k(1) by auto
  have loop: "read_cmps x st1 (dict_items x (f_cmps doc)) = (Returned, st2, [])"
    using read_cmps_out[OF cs_ok cs_ne, of x st1]
    by (simp add: items st2_def rs_def st1_def)
  have heap2: "heap st2 = heap st0 @ rs"
    and all2: "all_comp st2 = [length (heap st0) ..< length (heap st0) + length (all_comp st)]"
    and cur2: "current_comp st2 = Some (length (heap st0) + length (all_comp st) - 1)"
    and wl2: "spec_wavelength st2 \<noteq> []"
    using fresh wl k by (simp_all add: st2_def grow_fields st1_def)
  have valid: "\<forall>a \<in> set (all_comp st2). a < length (heap st2) \<and>
             length (abslines (heap st2 ! a)) \<le> length (mask_abslines (heap st2 ! a))"
  proof
    fix a assume "a \<in> set (all_comp st2)"
    then have a: "length (heap st0) \<le> a" "a - length (heap st0) < length cs"
      using k by (auto simp: all2)
    then have "heap st2 ! a = reload (g_min_ew st0) (cs ! (a - length (heap st0)))"
      by (simp add: heap2 nth_append rs_def)
    moreover have "length (abslines (cs ! (a - length (heap st0))))
                   \<le> length (mask_abslines (cs ! (a - length (heap st0))))"
      using cs_ok a(2) by simp
    ultimately show "a < length (heap st2) \<and>
             length (abslines (heap st2 ! a)) \<le> length (mask_abslines (heap st2 ! a))"
      using a k by (simp add: heap2 reload_lengths)
  qed
  from update_model_ok[OF valid wl2, of x] obtain st3 where
    um: "update_model x st2 = (Returned, st3)"
    and h3: "map forget_N (heap st3) = map forget_N (heap st2)"
    and all3: "all_comp st3 = all_comp st2"
    and cur3: "current_comp st3 = current_comp st2"
    by blast
  define w0 where "w0 = (if spec_filename st1 \<noteq> f_spec_file doc
                        then [''Spec file names do not match! Could just be path..''] else [])"
  define st4 where "st4 = st3\<lparr>fiddle := Some (length (heap st0) + length (all_comp st) - 1)\<rparr>"
  have hdr: "(case f_bad_pixels doc of
                 None \<Rightarrow> Inr (spec_bad_pixels st0)
               | Some bad \<Rightarrow> (if length bad > 0 then set_bad (spec_bad_pixels st0) bad
                              else Inr (spec_bad_pixels st0))) = Inr bp'"
    using bp' by (auto simp: doc_def set_bad_def)
  have fw: "f_fwhm doc = g_fwhm st0" using fwhm by (simp add: doc_def)
  have rd: "read_previous x st0 doc = (Returned, st4, w0)"
    unfolding read_previous_def
    using fw loop um cur2 cur3
    by (simp add: hdr st1_def[symmetric] w0_def st4_def Let_def)
  have each: "forget_N (heap st4 ! (length (heap st0) + j))
              = forget_N (reload (g_min_ew st0) (read_order x st ! j))"
    if j: "j < length (all_comp st)" for j
  proof -
    define q where "q = length (heap st0) + j"
    have l3: "length (heap st3) = length (heap st2)"
      using arg_cong[OF h3, of length] by simp
    have q2: "q < length (heap st2)"
      using j k by (simp add: heap2 q_def)
    have "forget_N (heap st3 ! q) = map forget_N (heap st3) ! q"
      using q2 l3 by simp
    also have "\<dots> = map forget_N (heap st2) ! q"
      by (simp only: h3)
    also have "\<dots> = forget_N (heap st2 ! q)"
      using q2 by simp
    finally have "forget_N (heap st3 ! (length (heap st0) + j))
          = forget_N (heap st2 ! (length (heap st0) + j))"
      by (simp add: q_def)
    also have "heap st2 ! (length (heap st0) + j) = rs ! j"
      by (simp add: heap2)
    also have "rs ! j = reload (g_min_ew st0) (read_order x st ! j)"
      using j k by (simp add: rs_def cs_def)
    finally show ?thesis by (simp add: st4_def)
  qed
  have "all_comp st4 = [length (heap st0) ..< length (heap st0) + length (all_comp st)]"
    using all3 all2 by (simp add: st4_def)
  moreover have "f_cmps doc = sort_key fst
                          (map (\<lambda>a. (name (heap st ! a), out_record (stripped (heap st ! a))))
                               (all_comp st))"
    by (simp add: doc_def cmps)
  ultimately show ?thesis using w rd each by blast
qed

lemma distinct_map_insort:
  "distinct (map g (insort_key f y ys)) \<longleftrightarrow> g y \<notin> g ` set ys \<and> distinct (map g ys)"
  by (induction ys) (auto simp: set_insort_key)

lemma distinct_map_sort: "distinct (map g (sort_key f ys)) = distinct (map g ys)"
  by (induction ys) (simp_all add: distinct_map_insort)

lemma reload_name: "name (reload mw c) = name c"
  by (simp add: reload_def Let_def)

text \<open>
  Every component of the registry is read back at some registry position of the
  reading session, and the names read back are distinct.
\<close>

lemma roundtrip_by_name:
  assumes masks: "\<forall>a \<in> set (all_comp st).
             length (abslines (heap st ! a)) \<le> length (mask_abslines (heap st ! a))"
    and names: "distinct (map (\<lambda>a. name (heap st ! a)) (all_comp st))"
    and nonempty: "all_comp st \<noteq> []"
    and fwhm: "g_fwhm st0 = g_fwhm st"
    and bp: "length (spec_bad_pixels st0) = length (spec_bad_pixels st)"
    and fresh: "all_comp st0 = []"
    and wl: "spec_wavelength st0 \<noteq> []"
  shows "\<exists>h doc st2 w.
           write_out st = (Returned, st\<lparr>heap := h\<rparr>, Some doc) \<and>
           read_previous x st0 doc = (Returned, st2, w) \<and>
           length (all_comp st2) = length (all_comp st) \<and>
           distinct (map (\<lambda>a. name (heap st2 ! a)) (all_comp st2)) \<and>
           (\<forall>i < length (all_comp st). \<exists>j < length (all_comp st2).
              forget_N (heap st2 ! (all_comp st2 ! j))
              = forget_N (reload (g_min_ew st0) (stripped (heap st ! (all_comp st ! i)))))"
proof -
  from roundtrip[OF assms, of x] obtain h doc st2 w where
    w: "write_out st = (Returned, st\<lparr>heap := h\<rparr>, Some doc)"
    and rd: "read_previous x st0 doc = (Returned, st2, w)"
    and all2: "all_comp st2 = [length (heap st0) ..< length (heap st0) + length (all_comp st)]"
    and each: "\<forall>j < length (all_comp st).
              forget_N (heap st2 ! (length (heap st0) + j))
              = forget_N (reload (g_min_ew st0) (read_order x st ! j))"
    by blast
  have len: "length (all_comp st2) = length (all_comp st)" by (simp add: all2)
  have found: "\<exists>j < length (all_comp st2).
              forget_N (heap st2 ! (all_comp st2 ! j))
              = forget_N (reload (g_min_ew st0) (stripped (heap st ! (all_comp st ! i))))"
    if i: "i < length (all_comp st)" for i
  proof -
    from i have "stripped (heap st ! (all_comp st ! i)) \<in> set (read_order x st)"
      by (simp add: read_order_set)
    then obtain j where j: "j < length (read_order x st)"
      "read_order x st ! j = stripped (heap st ! (all_comp st ! i))"
      by (auto simp: in_set_conv_nth)
    then have j': "j < length (all_comp st)" by (simp add: read_order_set)
    then have "all_comp st2 ! j = length (heap st0) + j" by (simp add: all2)
    with each j' j(2) len show ?thesis by auto
  qed
  have nm: "map (\<lambda>a. name (heap st2 ! a)) (all_comp st2) = map name (read_order x st)"
  proof (rule nth_equalityI)
    show "length (map (\<lambda>a. name (heap st2 ! a)) (all_comp st2)) = length (map name (read_order x st))"
      by (simp add: len read_order_set)
  next
    fix j assume "j < length (map (\<lambda>a. name (heap st2 ! a)) (all_comp st2))"
    then have j: "j < length (all_comp st)" by (simp add: len)
    then have ix: "all_comp st2 ! j = length (heap st0) + j" by (simp add: all2)
    from each j have "forget_N (heap st2 ! (length (heap st0) + j))
              = forget_N (reload (g_min_ew st0) (read_order x st ! j))"
      by simp
    from forget_N_fields(1)[OF this]
    have "name (heap st2 ! (length (heap st0) + j)) = name (read_order x st ! j)"
      by (simp add: reload_name)
    with j ix show "map (\<lambda>a. name (heap st2 ! a)) (all_comp st2) ! j = map name (read_order x st) ! j"
      by (simp add: len read_order_set)
  qed
  have eq: "map name (map (\<lambda>a. stripped (heap st ! a)) (all_comp st))
        = map (\<lambda>a. name (heap st ! a)) (all_comp st)"
    by (simp add: comp_def stripped_simps)
  have "distinct (map name (map (\<lambda>a. stripped (heap st ! a)) (all_comp st)))"
    unfolding eq by (rule names)
  then have "distinct (map name (read_order x st))"
    by (simp only: read_order_def distinct_map_sort)
  with nm have dn: "distinct (map (\<lambda>a. name (heap st2 ! a)) (all_comp st2))"
    by simp
  from w rd len dn found show ?thesis by blast
qed

lemma zip_map_fst_snd:
  "zip (map (\<lambda>p. f (fst p)) K) (map snd K) = map (\<lambda>p. (f (fst p), snd p)) K"
  by (induction K) auto

lemma ew_est_sync:
  "ew_est (l\<lparr>l_logN := a, l_b := b, l_z := z\<rparr>) = ew_est (l\<lparr>l_logN := a\<rparr>)"
  by (simp add: ew_est_def)

lemma reload_stripped_mask:
  "mask_abslines (reload mw (stripped c))
   = map (\<lambda>p. if ew_est ((fst p)\<lparr>l_logN := a_logN (attrib c)\<rparr>) < mw then 0 else snd p)
         (filter (\<lambda>p. snd p \<noteq> 0) (zip (abslines c) (mask_abslines c)))"
proof -
  define sync where "sync = (\<lambda>line :: absline. line\<lparr>l_logN := a_logN (attrib c),
                               l_b := a_b (attrib c), l_z := a_z (attrib c)\<rparr>)"
  have "mask_abslines (reload mw (stripped c))
        = masked mw (map (\<lambda>p. sync (fst p)) (kept c)) (map snd (kept c))"
    by (simp add: reload_def Let_def stripped_simps sync_def comp_def)
  also have "\<dots> = map (\<lambda>p. if ew_est (fst p) < mw then 0 else if snd p = 0 then 2 else snd p)
                     (map (\<lambda>p. (sync (fst p), snd p)) (kept c))"
    by (simp add: masked_def zip_map_fst_snd)
  also have "\<dots> = map (\<lambda>p. if ew_est (sync (fst p)) < mw then 0
                            else if snd p = 0 then 2 else snd p) (kept c)"
    by (simp add: comp_def)
  also have "\<dots> = map (\<lambda>p. if ew_est ((fst p)\<lparr>l_logN := a_logN (attrib c)\<rparr>) < mw then 0
                            else snd p) (kept c)"
    by (rule map_cong) (auto simp: kept_def sync_def ew_est_sync)
  finally show ?thesis by (simp add: kept_def)
qed

lemma reload_fields:
  "name (reload mw c) = name c" "comment (reload mw c) = comment c"
  "a_logN (attrib (reload mw c)) = a_logN (attrib c)"
  "a_z (attrib (reload mw c)) = a_z (attrib c)"
  "a_b (attrib (reload mw c)) = a_b (attrib c)"
  "a_Reliability (attrib (reload mw c)) = a_Reliability (attrib c)"
  by (simp_all add: reload_def Let_def)

lemma masked_replicate:
  "masked mw ls (replicate (length ls) 2) = map (\<lambda>l. if ew_est l < mw then 0 else 2) ls"
  by (rule nth_equalityI) (simp_all add: masked_def)

lemma read_cmp_quality:
  assumes "r_Reliability r = None"
  shows "read_cmp x s (k, r) = read_cmp x s (k, r\<lparr>r_Reliability := r_Quality r\<rparr>)"
proof (cases "r_Quality r")
  case None
  with assms have "r\<lparr>r_Reliability := r_Quality r\<rparr> = r\<lparr>r_Reliability := r_Reliability r\<rparr>"
    by simp
  then show ?thesis by simp
next
  case (Some q)
  have rel: "reliability_of (r\<lparr>r_Reliability := r_Quality r\<rparr>) = reliability_of r"
    using assms Some by (simp add: reliability_of_def)
  have fd: "from_dict (r\<lparr>r_Reliability := r_Quality r\<rparr>) ls = from_dict r ls" for ls
    by (simp add: from_dict_def)
  show ?thesis
    unfolding read_cmp_def add_component_def
    by (simp add: rel fd Let_def split: option.splits sum.splits)
qed

lemma read_cmp_legacy:
  assumes "r_lines r = None" and "as_list (x_ISM x (r_wrest r)) = t # ts"
    and "reliability_of r = Some rel"
  shows "\<exists>c n. read_cmp x s (k, r) = (Returned, grow s [c] [n], []) \<and>
           name c = k \<and> a_logN (attrib c) = r_Nfit r \<and> a_z (attrib c) = r_zfit r \<and>
           a_b (attrib c) = r_bfit r \<and> a_Reliability (attrib c) = rel \<and>
           comment c = r_Comment r \<and> map data (abslines c) = t # ts \<and>
           map l_logN (abslines c) = map (\<lambda>_. r_Nfit r) (t # ts) \<and>
           mask_abslines c
             = map (\<lambda>l. if ew_est l < g_min_ew s then 0 else 2) (abslines c)"
proof -
  define L where "L = t # ts"
  define nm where "nm = ''z'' @ x_fmt5 x (r_zcomp r) @ ''_'' @ species (t_name t)"
  define cc where "cc =
     \<lparr>name = nm, zcomp = r_zcomp r, vlim = r_vlim r,
      stars = (if t_Ej t > 0 then Some (star_marks (t_name t)) else None),
      init_wrest = r_wrest r,
      attrib = \<lparr>a_N = 0, a_Nsig = 0, a_flagN = 0, a_logN = 0, a_sig_logN = 0,
                 a_b = 0, a_bsig = 0, a_z = r_zcomp r, a_zsig = 0, a_Reliability = ''None''\<rparr>,
      comment = [],
      abslines = map (\<lambda>tr. (AbsLine tr)\<lparr>l_z := r_zcomp r, l_vlim := r_vlim r\<rparr>) L,
      mask_abslines = replicate (length L) 2\<rparr>"
  define ls where "ls = map (\<lambda>tr. (AbsLine tr)\<lparr>l_z := r_zfit r, l_vlim := r_vlim r,
                                    l_logN := r_Nfit r, l_b := r_bfit r\<rparr>) L"
  define c where "c =
     \<lparr>name = k, zcomp = r_zcomp r, vlim = r_vlim r,
      stars = (if t_Ej t > 0 then Some (star_marks (t_name t)) else None),
      init_wrest = r_wrest r,
      attrib = \<lparr>a_N = 0, a_Nsig = 0, a_flagN = 0, a_logN = r_Nfit r, a_sig_logN = 0,
                 a_b = r_bfit r, a_bsig = 0, a_z = r_zfit r, a_zsig = 0, a_Reliability = rel\<rparr>,
      comment = r_Comment r, abslines = ls,
      mask_abslines = masked (g_min_ew s) ls (replicate (length L) 2)\<rparr>"
  have cr: "create_component (x_fmt5 x) (r_zcomp r) (r_wrest r) (x_ISM x) (r_vlim r) = Inr cc"
    by (simp add: create_component_Cons[where ll = "x_ISM x" and w = "r_wrest r", OF assms(2)]
        cc_def L_def nm_def)
  have added: "add_component x s (Wrest (r_wrest r)) (r_vlim r) (r_zcomp r)
               = (Returned, grow s [cc] [nm])"
    by (simp add: add_component_def cr grow_def Let_def cc_def)
  have synced: "sync_comp_lines
          (cc\<lparr>name := k,
               attrib := \<lparr>a_N = 0, a_Nsig = 0, a_flagN = 0, a_logN = r_Nfit r, a_sig_logN = 0,
                 a_b = r_bfit r, a_bsig = 0, a_z = r_zfit r, a_zsig = 0, a_Reliability = rel\<rparr>,
               comment := r_Comment r\<rparr>)
        = c\<lparr>mask_abslines := replicate (length L) 2\<rparr>"
    by (simp add: sync_comp_lines_def cc_def c_def ls_def AbsLine_def comp_def)
  have ml: "mask_comp_lines (c\<lparr>mask_abslines := replicate (length L) 2\<rparr>) (g_min_ew s) = Inr c"
    using mask_loop_masked[of ls "replicate (length L) 2" "g_min_ew s"]
    by (simp add: mask_comp_lines_def c_def ls_def)
  have step: "(let c0 = (heap s @ [cc]) ! length (heap s);
                  c1 = c0\<lparr>name := k,
                          attrib := (attrib c0)\<lparr>a_z := r_zfit r, a_b := r_bfit r,
                                                 a_logN := r_Nfit r\<rparr>\<rparr>;
                  c2 = c1\<lparr>attrib := (attrib c1)\<lparr>a_Reliability := rel\<rparr>,
                          comment := r_Comment r\<rparr>
              in sync_comp_lines c2) = c\<lparr>mask_abslines := replicate (length L) 2\<rparr>"
    using synced by (simp add: Let_def cc_def)
  have run: "read_cmp x s (k, r) = (Returned, grow s [c] [nm], [])"
    unfolding read_cmp_def
    using assms(1,3) added step ml
    by (simp add: grow_def Let_def)
  have d: "map data ls = t # ts"
    by (simp add: ls_def AbsLine_def comp_def L_def)
  have m: "mask_abslines c = map (\<lambda>l. if ew_est l < g_min_ew s then 0 else 2) (abslines c)"
    using masked_replicate[of "g_min_ew s" ls] by (simp add: c_def ls_def)
  have n: "map l_logN ls = map (\<lambda>_. r_Nfit r) (t # ts)"
    by (simp add: ls_def AbsLine_def comp_def L_def)
  from run d m n show ?thesis
    by (intro exI[of _ c] exI[of _ nm]) (simp add: c_def)
qed

text \<open>
  Claim C2, as the code has it. Take a registry that is not empty, whose names are
  distinct and whose masks have an entry for every line, and a session as it is before
  it reads a previous file, with the same FWHM and a spectrum of the same length.
  Then \<^verbatim>\<open>write_out\<close> returns a document and \<^verbatim>\<open>read_previous\<close> returns on it, with
  as many components as were written and no two of one name. They are the original
  ones by name: for every component of the registry the reading session has one with
  the same name, \<open>logN\<close>, \<open>z\<close>, \<open>b\<close>, comment and reliability, at the registry
  position that the order of the document and of the loaded \<^verbatim>\<open>dict\<close> gives it. Its
  mask array is the original one without its 0 entries (their lines are not written),
  and an entry that is kept is set to 0 when the estimated equivalent width of its
  line, at the component's \<open>logN\<close>, is below the threshold of the reading session.
  A record whose \<^verbatim>\<open>Reliability\<close> key is missing is read exactly as the record with
  the value of \<^verbatim>\<open>Quality\<close> under \<^verbatim>\<open>Reliability\<close>. A record without \<^verbatim>\<open>lines\<close> is read
  without error when the ISM catalog has a transition for its rest wavelength: the
  component has the record's name and fit values, one line per catalog transition at
  the record's \<open>logN\<close>, and a mask of 0 for the lines below the threshold and 2 for
  the others.
\<close>

theorem persistence_roundtrip:
  "((\<forall>a \<in> set (all_comp st).
        length (abslines (heap st ! a)) \<le> length (mask_abslines (heap st ! a))) \<and>
    distinct (map (\<lambda>a. name (heap st ! a)) (all_comp st)) \<and> all_comp st \<noteq> [] \<and>
    g_fwhm st0 = g_fwhm st \<and> length (spec_bad_pixels st0) = length (spec_bad_pixels st) \<and>
    all_comp st0 = [] \<and> spec_wavelength st0 \<noteq> []
    \<longrightarrow> (\<exists>h doc st2 w.
          write_out st = (Returned, st\<lparr>heap := h\<rparr>, Some doc) \<and>
          read_previous x st0 doc = (Returned, st2, w) \<and>
          length (all_comp st2) = length (all_comp st) \<and>
          distinct (map (\<lambda>a. name (heap st2 ! a)) (all_comp st2)) \<and>
          (\<forall>i < length (all_comp st). \<exists>j < length (all_comp st2).
             name (heap st2 ! (all_comp st2 ! j)) = name (heap st ! (all_comp st ! i)) \<and>
             a_logN (attrib (heap st2 ! (all_comp st2 ! j)))
               = a_logN (attrib (heap st ! (all_comp st ! i))) \<and>
             a_z (attrib (heap st2 ! (all_comp st2 ! j)))
               = a_z (attrib (heap st ! (all_comp st ! i))) \<and>
             a_b (attrib (heap st2 ! (all_comp st2 ! j)))
               = a_b (attrib (heap st ! (all_comp st ! i))) \<and>
             comment (heap st2 ! (all_comp st2 ! j)) = comment (heap st ! (all_comp st ! i)) \<and>
             a_Reliability (attrib (heap st2 ! (all_comp st2 ! j)))
               = a_Reliability (attrib (heap st ! (all_comp st ! i))) \<and>
             mask_abslines (heap st2 ! (all_comp st2 ! j))
               = map (\<lambda>p. if ew_est ((fst p)\<lparr>l_logN := a_logN (attrib (heap st ! (all_comp st ! i)))\<rparr>)
                               < g_min_ew st0 then 0 else snd p)
                     (filter (\<lambda>p. snd p \<noteq> 0)
                        (zip (abslines (heap st ! (all_comp st ! i)))
                             (mask_abslines (heap st ! (all_comp st ! i)))))))) \<and>
   (r_Reliability r = None
    \<longrightarrow> read_cmp x s (k, r) = read_cmp x s (k, r\<lparr>r_Reliability := r_Quality r\<rparr>)) \<and>
   (r_lines r = None \<and> as_list (x_ISM x (r_wrest r)) \<noteq> [] \<and> reliability_of r = Some rel
    \<longrightarrow> (\<exists>s' c. read_cmp x s (k, r) = (Returned, s', []) \<and>
            heap s' = heap s @ [c] \<and> all_comp s' = all_comp s @ [length (heap s)] \<and>
            name c = k \<and> a_logN (attrib c) = r_Nfit r \<and> a_z (attrib c) = r_zfit r \<and>
            a_b (attrib c) = r_bfit r \<and> a_Reliability (attrib c) = rel \<and>
            comment c = r_Comment r \<and>
            map data (abslines c) = as_list (x_ISM x (r_wrest r)) \<and>
            map l_logN (abslines c) = map (\<lambda>_. r_Nfit r) (as_list (x_ISM x (r_wrest r))) \<and>
            mask_abslines c
              = map (\<lambda>l. if ew_est l < g_min_ew s then 0 else 2) (abslines c)))"
proof (intro conjI impI)
  assume a: "(\<forall>a \<in> set (all_comp st).
        length (abslines (heap st ! a)) \<le> length (mask_abslines (heap st ! a))) \<and>
    distinct (map (\<lambda>a. name (heap st ! a)) (all_comp st)) \<and> all_comp st \<noteq> [] \<and>
    g_fwhm st0 = g_fwhm st \<and> length (spec_bad_pixels st0) = length (spec_bad_pixels st) \<and>
    all_comp st0 = [] \<and> spec_wavelength st0 \<noteq> []"
  then have h1: "\<forall>a \<in> set (all_comp st).
        length (abslines (heap st ! a)) \<le> length (mask_abslines (heap st ! a))"
    and h2: "distinct (map (\<lambda>a. name (heap st ! a)) (all_comp st))"
    and h3: "all_comp st \<noteq> []" and h4: "g_fwhm st0 = g_fwhm st"
    and h5: "length (spec_bad_pixels st0) = length (spec_bad_pixels st)"
    and h6: "all_comp st0 = []" and h7: "spec_wavelength st0 \<noteq> []"
    by blast+
  from roundtrip_by_name[OF h1 h2 h3 h4 h5 h6 h7, of x] obtain h doc st2 w where
    w: "write_out st = (Returned, st\<lparr>heap := h\<rparr>, Some doc)"
    and rd: "read_previous x st0 doc = (Returned, st2, w)"
    and len: "length (all_comp st2) = length (all_comp st)"
    and dn: "distinct (map (\<lambda>a. name (heap st2 ! a)) (all_comp st2))"
    and each: "\<forall>i < length (all_comp st). \<exists>j < length (all_comp st2).
              forget_N (heap st2 ! (all_comp st2 ! j))
              = forget_N (reload (g_min_ew st0) (stripped (heap st ! (all_comp st ! i))))"
    by (elim exE conjE)
  have props: "\<exists>j < length (all_comp st2).
             name (heap st2 ! (all_comp st2 ! j)) = name (heap st ! (all_comp st ! i)) \<and>
             a_logN (attrib (heap st2 ! (all_comp st2 ! j)))
               = a_logN (attrib (heap st ! (all_comp st ! i))) \<and>
             a_z (attrib (heap st2 ! (all_comp st2 ! j)))
               = a_z (attrib (heap st ! (all_comp st ! i))) \<and>
             a_b (attrib (heap st2 ! (all_comp st2 ! j)))
               = a_b (attrib (heap st ! (all_comp st ! i))) \<and>
             comment (heap st2 ! (all_comp st2 ! j)) = comment (heap st ! (all_comp st ! i)) \<and>
             a_Reliability (attrib (heap st2 ! (all_comp st2 ! j)))
               = a_Reliability (attrib (heap st ! (all_comp st ! i))) \<and>
             mask_abslines (heap st2 ! (all_comp st2 ! j))
               = map (\<lambda>p. if ew_est ((fst p)\<lparr>l_logN := a_logN (attrib (heap st ! (all_comp st ! i)))\<rparr>)
                               < g_min_ew st0 then 0 else snd p)
                     (filter (\<lambda>p. snd p \<noteq> 0)
                        (zip (abslines (heap st ! (all_comp st ! i)))
                             (mask_abslines (heap st ! (all_comp st ! i)))))"
    if i: "i < length (all_comp st)" for i
  proof -
    define c where "c = heap st ! (all_comp st ! i)"
    from each i obtain j where j: "j < length (all_comp st2)"
      and f: "forget_N (heap st2 ! (all_comp st2 ! j))
              = forget_N (reload (g_min_ew st0) (stripped c))"
      unfolding c_def by blast
    note ff = forget_N_fields[OF f]
    have "name (heap st2 ! (all_comp st2 ! j)) = name c \<and>
             a_logN (attrib (heap st2 ! (all_comp st2 ! j))) = a_logN (attrib c) \<and>
             a_z (attrib (heap st2 ! (all_comp st2 ! j))) = a_z (attrib c) \<and>
             a_b (attrib (heap st2 ! (all_comp st2 ! j))) = a_b (attrib c) \<and>
             comment (heap st2 ! (all_comp st2 ! j)) = comment c \<and>
             a_Reliability (attrib (heap st2 ! (all_comp st2 ! j))) = a_Reliability (attrib c) \<and>
             mask_abslines (heap st2 ! (all_comp st2 ! j))
               = map (\<lambda>p. if ew_est ((fst p)\<lparr>l_logN := a_logN (attrib c)\<rparr>)
                               < g_min_ew st0 then 0 else snd p)
                     (filter (\<lambda>p. snd p \<noteq> 0) (zip (abslines c) (mask_abslines c)))"
      using ff(1,5,6,7)
      by (simp add: reload_fields stripped_simps reload_stripped_mask)
    with j show ?thesis
      unfolding c_def by blast
  qed
  from w rd len dn props
  show "\<exists>h doc st2 w.
          write_out st = (Returned, st\<lparr>heap := h\<rparr>, Some doc) \<and>
          read_previous x st0 doc = (Returned, st2, w) \<and>
          length (all_comp st2) = length (all_comp st) \<and>
          distinct (map (\<lambda>a. name (heap st2 ! a)) (all_comp st2)) \<and>
          (\<forall>i < length (all_comp st). \<exists>j < length (all_comp st2).
             name (heap st2 ! (all_comp st2 ! j)) = name (heap st ! (all_comp st ! i)) \<and>
             a_logN (attrib (heap st2 ! (all_comp st2 ! j)))
               = a_logN (attrib (heap st ! (all_comp st ! i))) \<and>
             a_z (attrib (heap st2 ! (all_comp st2 ! j)))
               = a_z (attrib (heap st ! (all_comp st ! i))) \<and>
             a_b (attrib (heap st2 ! (all_comp st2 ! j)))
               = a_b (attrib (heap st ! (all_comp st ! i))) \<and>
             comment (heap st2 ! (all_comp st2 ! j)) = comment (heap st ! (all_comp st ! i)) \<and>
             a_Reliability (attrib (heap st2 ! (all_comp st2 ! j)))
               = a_Reliability (attrib (heap st ! (all_comp st ! i))) \<and>
             mask_abslines (heap st2 ! (all_comp st2 ! j))
               = map (\<lambda>p. if ew_est ((fst p)\<lparr>l_logN := a_logN (attrib (heap st ! (all_comp st ! i)))\<rparr>)
                               < g_min_ew st0 then 0 else snd p)
                     (filter (\<lambda>p. snd p \<noteq> 0)
                        (zip (abslines (heap st ! (all_comp st ! i)))
                             (mask_abslines (heap st ! (all_comp st ! i))))))"
    by blast
next
  assume "r_Reliability r = None"
  then show "read_cmp x s (k, r) = read_cmp x s (k, r\<lparr>r_Reliability := r_Quality r\<rparr>)"
    by (rule read_cmp_quality)
next
  assume a: "r_lines r = None \<and> as_list (x_ISM x (r_wrest r)) \<noteq> [] \<and> reliability_of r = Some rel"
  then obtain t ts where tts: "as_list (x_ISM x (r_wrest r)) = t # ts"
    by (cases "as_list (x_ISM x (r_wrest r))") auto
  from a have l: "r_lines r = None" and rel: "reliability_of r = Some rel" by simp_all
  from read_cmp_legacy[OF l tts rel, of s k] obtain c n where
    c: "read_cmp x s (k, r) = (Returned, grow s [c] [n], [])"
       "name c = k" "a_logN (attrib c) = r_Nfit r" "a_z (attrib c) = r_zfit r"
       "a_b (attrib c) = r_bfit r" "a_Reliability (attrib c) = rel"
       "comment c = r_Comment r" "map data (abslines c) = t # ts"
       "map l_logN (abslines c) = map (\<lambda>_. r_Nfit r) (t # ts)"
       "mask_abslines c = map (\<lambda>l. if ew_est l < g_min_ew s then 0 else 2) (abslines c)"
    by (elim exE conjE)
  show "\<exists>s' c. read_cmp x s (k, r) = (Returned, s', []) \<and>
            heap s' = heap s @ [c] \<and> all_comp s' = all_comp s @ [length (heap s)] \<and>
            name c = k \<and> a_logN (attrib c) = r_Nfit r \<and> a_z (attrib c) = r_zfit r \<and>
            a_b (attrib c) = r_bfit r \<and> a_Reliability (attrib c) = rel \<and>
            comment c = r_Comment r \<and>
            map data (abslines c) = as_list (x_ISM x (r_wrest r)) \<and>
            map l_logN (abslines c) = map (\<lambda>_. r_Nfit r) (as_list (x_ISM x (r_wrest r))) \<and>
            mask_abslines c
              = map (\<lambda>l. if ew_est l < g_min_ew s then 0 else 2) (abslines c)"
    using c tts
    by (intro exI[of _ "grow s [c] [n]"] exI[of _ c]) (simp add: grow_fields)
qed

subsection \<open>The example session\<close>

lemma ex_two_heap:
  "heap ex_two ! 0 = ex_comp_z ''z0.00000_HI'' 0"
  "heap ex_two ! Suc 0 = ex_comp_z ''z0.00100_HI'' 0.001"
  "abslines (ex_comp_z n z) = [ex_strong, ex_weak, ex_strong]"
  "mask_abslines (ex_comp_z n z) = [2, 0, 2]"
  "name (ex_comp_z n z) = n" "attrib (ex_comp_z n z) = ex_attrib"
  "a_logN ex_attrib = 14"
  by (simp_all add: ex_two_def ex_comp_z_def ex_comp_def ex_attrib_def)

lemma ex_two_session:
  "all_comp ex_two = [0, Suc 0]" "g_fwhm ex_two = 3" "spec_filename ex_two = ''spec.fits''"
  "spec_bad_pixels ex_two = [0, 1]"
  by (simp_all add: ex_two_def)

lemma ex_fresh_session:
  "all_comp ex_fresh = []" "heap ex_fresh = []" "g_fwhm ex_fresh = 3"
  "g_min_ew ex_fresh = 0.005" "spec_filename ex_fresh = ''spec.fits''"
  "spec_bad_pixels ex_fresh = [0, 0]" "spec_wavelength ex_fresh = [900, 1100]"
  by (simp_all add: ex_fresh_def)

lemma ex_two_hyps:
  "\<forall>a \<in> set (all_comp ex_two).
      length (abslines (heap ex_two ! a)) \<le> length (mask_abslines (heap ex_two ! a))"
  "\<forall>a \<in> set (all_comp ex_two).
      length (mask_abslines (heap ex_two ! a)) = length (abslines (heap ex_two ! a))"
  "distinct (map (\<lambda>a. name (heap ex_two ! a)) (all_comp ex_two))"
  "all_comp ex_two \<noteq> []" "g_fwhm ex_fresh = g_fwhm ex_two"
  "length (spec_bad_pixels ex_fresh) = length (spec_bad_pixels ex_two)"
  "all_comp ex_fresh = []" "spec_wavelength ex_fresh \<noteq> []"
  by (simp_all add: ex_two_session ex_two_heap ex_fresh_session)

lemma ex_where_one: "where_one [0, 1] = [1]"
  by (simp add: where_one_def upt_rec)

lemma ex_write_out: "\<exists>h. write_out ex_two = (Returned, ex_two\<lparr>heap := h\<rparr>, Some ex_doc)"
proof -
  from write_out_run[OF ex_two_hyps(1) ex_two_hyps(3)] obtain h where
    "write_out ex_two =
           (Returned, ex_two\<lparr>heap := h\<rparr>,
            Some \<lparr>f_fwhm = g_fwhm ex_two, f_spec_file = spec_filename ex_two,
                  f_bad_pixels = Some (where_one (spec_bad_pixels ex_two)),
                  f_cmps = sort_key fst
                             (map (\<lambda>a. (name (heap ex_two ! a), out_record (stripped (heap ex_two ! a))))
                                  (all_comp ex_two))\<rparr>)"
    by blast
  then have "write_out ex_two = (Returned, ex_two\<lparr>heap := h\<rparr>, Some ex_doc)"
    by (simp add: ex_two_session ex_two_heap ex_where_one ex_doc_def)
  then show ?thesis by blast
qed

text \<open>
  The document lists the components by name, whatever the order of the registry: the
  session that lists the later component first writes the same document.
\<close>

lemma write_out_sorted:
  "write_out st = (oc, st', Some doc) \<Longrightarrow> sorted (map fst (f_cmps doc))"
  by (auto simp: write_out_def Let_def sorted_sort_key split: prod.splits outcome.splits)

lemma ex_rev_write_out: "\<exists>h. write_out ex_rev = (Returned, ex_rev\<lparr>heap := h\<rparr>, Some ex_doc)"
proof -
  have f: "all_comp ex_rev = [Suc 0, 0]" "heap ex_rev = heap ex_two" "g_fwhm ex_rev = 3"
    "spec_filename ex_rev = ''spec.fits''" "spec_bad_pixels ex_rev = [0, 1]"
    by (simp_all add: ex_rev_def ex_two_def)
  have m: "\<forall>a \<in> set (all_comp ex_rev).
      length (abslines (heap ex_rev ! a)) \<le> length (mask_abslines (heap ex_rev ! a))"
    by (simp add: f ex_two_heap)
  have d: "distinct (map (\<lambda>a. name (heap ex_rev ! a)) (all_comp ex_rev))"
    by (simp add: f ex_two_heap)
  from write_out_run[OF m d] obtain h where
    "write_out ex_rev =
           (Returned, ex_rev\<lparr>heap := h\<rparr>,
            Some \<lparr>f_fwhm = g_fwhm ex_rev, f_spec_file = spec_filename ex_rev,
                  f_bad_pixels = Some (where_one (spec_bad_pixels ex_rev)),
                  f_cmps = sort_key fst
                             (map (\<lambda>a. (name (heap ex_rev ! a), out_record (stripped (heap ex_rev ! a))))
                                  (all_comp ex_rev))\<rparr>)"
    by blast
  then have "write_out ex_rev = (Returned, ex_rev\<lparr>heap := h\<rparr>, Some ex_doc)"
    by (simp add: f ex_two_heap ex_where_one ex_doc_def)
  then show ?thesis by blast
qed

lemma ex_read_order:
  "read_order ex_x ex_two
   = [stripped (ex_comp_z ''z0.00000_HI'' 0), stripped (ex_comp_z ''z0.00100_HI'' 0.001)]"
  by (simp add: read_order_def ex_x_def sort_key_const ex_two_session ex_two_heap stripped_simps)

lemma ex_strong_14: "ex_strong\<lparr>l_logN := 14\<rparr> = ex_strong"
  by (simp add: ex_strong_def)

lemma ex_reloaded:
  "mask_abslines (reload 0.005 (stripped (ex_comp_z n z))) = [2, 2]"
  "length (abslines (reload 0.005 (stripped (ex_comp_z n z)))) = 2"
  by (simp_all add: reload_stripped_mask ex_two_heap ex_strong_14 ex_ews)
     (simp add: reload_def Let_def stripped_simps kept_def ex_two_heap)

lemma ex_roundtrip:
  "\<exists>st2 w. read_previous ex_x ex_fresh ex_doc = (Returned, st2, w) \<and>
           all_comp st2 = [0, 1] \<and>
           map (\<lambda>a. mask_abslines (heap st2 ! a)) (all_comp st2) = [[2, 2], [2, 2]] \<and>
           map (\<lambda>a. length (abslines (heap st2 ! a))) (all_comp st2) = [2, 2]"
proof -
  from roundtrip[OF ex_two_hyps(1) ex_two_hyps(3-8), of ex_x] obtain h doc st2 w where
    w: "write_out ex_two = (Returned, ex_two\<lparr>heap := h\<rparr>, Some doc)"
    and rd: "read_previous ex_x ex_fresh doc = (Returned, st2, w)"
    and all2: "all_comp st2 = [length (heap ex_fresh) ..< length (heap ex_fresh) + length (all_comp ex_two)]"
    and each: "\<forall>j < length (all_comp ex_two).
              forget_N (heap st2 ! (length (heap ex_fresh) + j))
              = forget_N (reload (g_min_ew ex_fresh) (read_order ex_x ex_two ! j))"
    by blast
  from w ex_write_out have doc: "doc = ex_doc" by auto
  have ix: "all_comp st2 = [0, 1]"
    by (simp add: all2 ex_fresh_session ex_two_session upt_rec)
  from each[rule_format, of 0]
  have f0: "forget_N (heap st2 ! 0)
           = forget_N (reload 0.005 (stripped (ex_comp_z ''z0.00000_HI'' 0)))"
    by (simp add: ex_two_session ex_fresh_session ex_read_order)
  from each[rule_format, of 1]
  have f1: "forget_N (heap st2 ! 1)
           = forget_N (reload 0.005 (stripped (ex_comp_z ''z0.00100_HI'' 0.001)))"
    by (simp add: ex_two_session ex_fresh_session ex_read_order)
  note ff0 = forget_N_fields[OF f0] and ff1 = forget_N_fields[OF f1]
  have m: "mask_abslines (heap st2 ! 0) = [2, 2]" "mask_abslines (heap st2 ! 1) = [2, 2]"
    using ff0(7) ff1(7) by (simp_all only: ex_reloaded)
  have l: "length (abslines (heap st2 ! 0)) = 2" "length (abslines (heap st2 ! 1)) = 2"
    using ff0(8) ff1(8) by (simp_all only: ex_reloaded)
  from rd doc ix m l show ?thesis by simp
qed

text \<open>
  Claim C2 as stated fails: both components of the example session have the mask
  array \<open>[2, 0, 2]\<close>; after writing and reading, both components of the reading
  session have \<open>[2, 2]\<close>.
\<close>

theorem roundtrip_mask_counterexample:
  "snd (snd (write_out ex_two)) = Some ex_doc \<and>
   fst (read_previous ex_x ex_fresh ex_doc) = Returned \<and>
   map (\<lambda>a. mask_abslines (heap ex_two ! a)) (all_comp ex_two) = [[2, 0, 2], [2, 0, 2]] \<and>
   map (\<lambda>a. mask_abslines (heap (fst (snd (read_previous ex_x ex_fresh ex_doc))) ! a))
       (all_comp (fst (snd (read_previous ex_x ex_fresh ex_doc)))) = [[2, 2], [2, 2]]"
proof -
  from ex_write_out obtain h where "write_out ex_two = (Returned, ex_two\<lparr>heap := h\<rparr>, Some ex_doc)"
    by blast
  moreover from ex_roundtrip obtain st2 w where
    "read_previous ex_x ex_fresh ex_doc = (Returned, st2, w)"
    "all_comp st2 = [0, 1]"
    "map (\<lambda>a. mask_abslines (heap st2 ! a)) (all_comp st2) = [[2, 2], [2, 2]]"
    "map (\<lambda>a. length (abslines (heap st2 ! a))) (all_comp st2) = [2, 2]"
    by (elim exE conjE)
  ultimately show ?thesis
    by (simp add: ex_two_session ex_two_heap)
qed

theorem persistence_roundtrip_witness:
  "distinct (map (\<lambda>a. name (heap ex_two ! a)) (all_comp ex_two)) \<and>
   mask_abslines (heap ex_two ! (all_comp ex_two ! 0)) = [2, 0, 2] \<and>
   (\<exists>h doc st2 w j.
      write_out ex_two = (Returned, ex_two\<lparr>heap := h\<rparr>, Some doc) \<and>
      read_previous ex_x ex_fresh doc = (Returned, st2, w) \<and>
      length (all_comp st2) = 2 \<and> j < 2 \<and>
      name (heap st2 ! (all_comp st2 ! j)) = ''z0.00000_HI'' \<and>
      a_logN (attrib (heap st2 ! (all_comp st2 ! j))) = 14 \<and>
      mask_abslines (heap st2 ! (all_comp st2 ! j)) = [2, 2]) \<and>
   r_Reliability ex_legacy = None \<and>
   read_cmp ex_x ex_fresh (''k'', ex_legacy)
     = read_cmp ex_x ex_fresh (''k'', ex_legacy\<lparr>r_Reliability := Some ''b''\<rparr>) \<and>
   r_lines ex_legacy = None \<and>
   (\<exists>s' c. read_cmp ex_x ex_fresh (''k'', ex_legacy) = (Returned, s', []) \<and>
           heap s' = [c] \<and> name c = ''k'' \<and> a_Reliability (attrib c) = ''b'' \<and>
           length (mask_abslines c) = 2)"
proof -
  note inst = persistence_roundtrip[of ex_two ex_fresh ex_x ex_legacy ex_fresh "''k''" "''b''"]
  have leg: "r_Reliability ex_legacy = None" "r_Quality ex_legacy = Some ''b''"
    "r_lines ex_legacy = None" "reliability_of ex_legacy = Some ''b''"
    "as_list (x_ISM ex_x (r_wrest ex_legacy)) = [ex_tr, ex_tr\<lparr>t_wrest := 900, t_name := ''HI 900''\<rparr>]"
    by (simp_all add: ex_legacy_def reliability_of_def ex_x_def ex_catalog_def as_list_def)
  note I1 = inst[THEN conjunct1] and I2 = inst[THEN conjunct2, THEN conjunct1]
    and I3 = inst[THEN conjunct2, THEN conjunct2]
  have hyp: "(\<forall>a \<in> set (all_comp ex_two).
        length (abslines (heap ex_two ! a)) \<le> length (mask_abslines (heap ex_two ! a))) \<and>
    distinct (map (\<lambda>a. name (heap ex_two ! a)) (all_comp ex_two)) \<and> all_comp ex_two \<noteq> [] \<and>
    g_fwhm ex_fresh = g_fwhm ex_two \<and>
    length (spec_bad_pixels ex_fresh) = length (spec_bad_pixels ex_two) \<and>
    all_comp ex_fresh = [] \<and> spec_wavelength ex_fresh \<noteq> []"
    by (intro conjI) (rule ex_two_hyps)+
  from I1[THEN mp, OF hyp] obtain h doc st2 w where r:
    "write_out ex_two = (Returned, ex_two\<lparr>heap := h\<rparr>, Some doc)"
    "read_previous ex_x ex_fresh doc = (Returned, st2, w)"
    "length (all_comp st2) = length (all_comp ex_two)"
    "distinct (map (\<lambda>a. name (heap st2 ! a)) (all_comp st2))"
    "\<forall>i < length (all_comp ex_two). \<exists>j < length (all_comp st2).
             name (heap st2 ! (all_comp st2 ! j)) = name (heap ex_two ! (all_comp ex_two ! i)) \<and>
             a_logN (attrib (heap st2 ! (all_comp st2 ! j)))
               = a_logN (attrib (heap ex_two ! (all_comp ex_two ! i))) \<and>
             a_z (attrib (heap st2 ! (all_comp st2 ! j)))
               = a_z (attrib (heap ex_two ! (all_comp ex_two ! i))) \<and>
             a_b (attrib (heap st2 ! (all_comp st2 ! j)))
               = a_b (attrib (heap ex_two ! (all_comp ex_two ! i))) \<and>
             comment (heap st2 ! (all_comp st2 ! j)) = comment (heap ex_two ! (all_comp ex_two ! i)) \<and>
             a_Reliability (attrib (heap st2 ! (all_comp st2 ! j)))
               = a_Reliability (attrib (heap ex_two ! (all_comp ex_two ! i))) \<and>
             mask_abslines (heap st2 ! (all_comp st2 ! j))
               = map (\<lambda>p. if ew_est ((fst p)\<lparr>l_logN := a_logN (attrib (heap ex_two ! (all_comp ex_two ! i)))\<rparr>)
                               < g_min_ew ex_fresh then 0 else snd p)
                     (filter (\<lambda>p. snd p \<noteq> 0)
                        (zip (abslines (heap ex_two ! (all_comp ex_two ! i)))
                             (mask_abslines (heap ex_two ! (all_comp ex_two ! i)))))"
    by (elim exE conjE)
  have two: "length (all_comp st2) = 2" using r(3) by (simp add: ex_two_session)
  from r(5)[rule_format, of 0] two obtain j where j: "j < 2"
    and z: "name (heap st2 ! (all_comp st2 ! j)) = ''z0.00000_HI''"
    "a_logN (attrib (heap st2 ! (all_comp st2 ! j))) = 14"
    "mask_abslines (heap st2 ! (all_comp st2 ! j)) = [2, 2]"
    by (auto simp: ex_two_session ex_two_heap ex_fresh_session ex_strong_14 ex_ews)
  have A: "\<exists>h doc st2 w j.
      write_out ex_two = (Returned, ex_two\<lparr>heap := h\<rparr>, Some doc) \<and>
      read_previous ex_x ex_fresh doc = (Returned, st2, w) \<and>
      length (all_comp st2) = 2 \<and> j < 2 \<and>
      name (heap st2 ! (all_comp st2 ! j)) = ''z0.00000_HI'' \<and>
      a_logN (attrib (heap st2 ! (all_comp st2 ! j))) = 14 \<and>
      mask_abslines (heap st2 ! (all_comp st2 ! j)) = [2, 2]"
    using r(1,2) two j z
    by (intro exI[of _ h] exI[of _ doc] exI[of _ st2] exI[of _ w] exI[of _ j]) simp
  from I2 leg have B: "read_cmp ex_x ex_fresh (''k'', ex_legacy)
     = read_cmp ex_x ex_fresh (''k'', ex_legacy\<lparr>r_Reliability := Some ''b''\<rparr>)"
    by simp
  have hypC: "r_lines ex_legacy = None \<and> as_list (x_ISM ex_x (r_wrest ex_legacy)) \<noteq> [] \<and>
              reliability_of ex_legacy = Some ''b''"
    by (simp add: leg)
  from I3[THEN mp, OF hypC] obtain s' c where c:
    "read_cmp ex_x ex_fresh (''k'', ex_legacy) = (Returned, s', [])"
    "heap s' = heap ex_fresh @ [c]" "all_comp s' = all_comp ex_fresh @ [length (heap ex_fresh)]"
    "name c = ''k''" "a_logN (attrib c) = r_Nfit ex_legacy" "a_z (attrib c) = r_zfit ex_legacy"
    "a_b (attrib c) = r_bfit ex_legacy" "a_Reliability (attrib c) = ''b''"
    "comment c = r_Comment ex_legacy"
    "map data (abslines c) = as_list (x_ISM ex_x (r_wrest ex_legacy))"
    "map l_logN (abslines c) = map (\<lambda>_. r_Nfit ex_legacy) (as_list (x_ISM ex_x (r_wrest ex_legacy)))"
    "mask_abslines c = map (\<lambda>l. if ew_est l < g_min_ew ex_fresh then 0 else 2) (abslines c)"
    by (elim exE conjE)
  have "length (abslines c) = 2"
    using arg_cong[OF c(10), of length] by (simp add: leg)
  with c(1,2,4,8,12) have C: "\<exists>s' c. read_cmp ex_x ex_fresh (''k'', ex_legacy) = (Returned, s', []) \<and>
           heap s' = [c] \<and> name c = ''k'' \<and> a_Reliability (attrib c) = ''b'' \<and>
           length (mask_abslines c) = 2"
    by (intro exI[of _ s'] exI[of _ c]) (simp add: ex_fresh_session)
  from A B C leg(1,3) ex_two_hyps(3) show ?thesis
    by (simp add: ex_two_session ex_two_heap)
qed

text \<open>
  Claim C8. The mask array has one entry per line: in the component
  \<^verbatim>\<open>create_component\<close> returns; after \<^verbatim>\<open>mask_comp_lines\<close>, which returns whenever this
  held before; and, for a registry in which it holds, in every record of the document
  that \<^verbatim>\<open>write_out\<close> writes and in every component that \<^verbatim>\<open>read_previous\<close> leaves
  after reading that document.
\<close>

theorem mask_length_invariant:
  "(create_component fmt z wr ll vl = Inr c
      \<longrightarrow> length (mask_abslines c) = length (abslines c)) \<and>
   (length (mask_abslines c1) = length (abslines c1)
      \<longrightarrow> (\<exists>c2. mask_comp_lines c1 mw = Inr c2 \<and>
                length (mask_abslines c2) = length (abslines c2))) \<and>
   ((\<forall>a \<in> set (all_comp st).
        length (mask_abslines (heap st ! a)) = length (abslines (heap st ! a))) \<and>
    distinct (map (\<lambda>a. name (heap st ! a)) (all_comp st)) \<and> all_comp st \<noteq> [] \<and>
    g_fwhm st0 = g_fwhm st \<and> length (spec_bad_pixels st0) = length (spec_bad_pixels st) \<and>
    all_comp st0 = [] \<and> spec_wavelength st0 \<noteq> []
    \<longrightarrow> (\<exists>h doc st2 w.
          write_out st = (Returned, st\<lparr>heap := h\<rparr>, Some doc) \<and>
          (\<forall>kr \<in> set (f_cmps doc).
             map_option length (r_mask_abslines (snd kr))
               = map_option length (r_lines (snd kr))) \<and>
          read_previous x st0 doc = (Returned, st2, w) \<and>
          length (all_comp st2) = length (all_comp st) \<and>
          (\<forall>a \<in> set (all_comp st2).
             length (mask_abslines (heap st2 ! a)) = length (abslines (heap st2 ! a)))))"
proof (intro conjI impI)
  assume cr: "create_component fmt z wr ll vl = Inr c"
  show "length (mask_abslines c) = length (abslines c)"
  proof (cases "as_list (ll wr)")
    case Nil
    with cr show ?thesis by (simp add: create_component_Nil)
  next
    case (Cons t ts)
    from cr create_component_Cons[where ll = ll and w = wr, OF Cons, of fmt z vl]
    show ?thesis by auto
  qed
next
  assume inv: "length (mask_abslines c1) = length (abslines c1)"
  then have "mask_loop mw (abslines c1) 0 (mask_abslines c1)
             = Inr (masked mw (abslines c1) (mask_abslines c1))"
    by (intro mask_loop_masked) simp
  with inv show "\<exists>c2. mask_comp_lines c1 mw = Inr c2 \<and>
                length (mask_abslines c2) = length (abslines c2)"
    by (simp add: mask_comp_lines_def masked_length)
next
  assume a: "(\<forall>a \<in> set (all_comp st).
        length (mask_abslines (heap st ! a)) = length (abslines (heap st ! a))) \<and>
    distinct (map (\<lambda>a. name (heap st ! a)) (all_comp st)) \<and> all_comp st \<noteq> [] \<and>
    g_fwhm st0 = g_fwhm st \<and> length (spec_bad_pixels st0) = length (spec_bad_pixels st) \<and>
    all_comp st0 = [] \<and> spec_wavelength st0 \<noteq> []"
  then have h1: "\<forall>a \<in> set (all_comp st).
        length (abslines (heap st ! a)) \<le> length (mask_abslines (heap st ! a))"
    and h2: "distinct (map (\<lambda>a. name (heap st ! a)) (all_comp st))"
    and h3: "all_comp st \<noteq> []" and h4: "g_fwhm st0 = g_fwhm st"
    and h5: "length (spec_bad_pixels st0) = length (spec_bad_pixels st)"
    and h6: "all_comp st0 = []" and h7: "spec_wavelength st0 \<noteq> []"
    by simp_all
  from roundtrip[OF h1 h2 h3 h4 h5 h6 h7, of x] obtain h doc st2 w where
    w: "write_out st = (Returned, st\<lparr>heap := h\<rparr>, Some doc)"
    and cm: "f_cmps doc = sort_key fst
                          (map (\<lambda>a. (name (heap st ! a), out_record (stripped (heap st ! a))))
                               (all_comp st))"
    and rd: "read_previous x st0 doc = (Returned, st2, w)"
    and all2: "all_comp st2 = [length (heap st0) ..< length (heap st0) + length (all_comp st)]"
    and each: "\<forall>j < length (all_comp st).
              forget_N (heap st2 ! (length (heap st0) + j))
              = forget_N (reload (g_min_ew st0) (read_order x st ! j))"
    by blast
  have recs: "\<forall>kr \<in> set (f_cmps doc).
             map_option length (r_mask_abslines (snd kr))
               = map_option length (r_lines (snd kr))"
    by (auto simp: cm out_record_def to_dict_def stripped_simps)
  have inv2: "length (mask_abslines (heap st2 ! a)) = length (abslines (heap st2 ! a))"
    if "a \<in> set (all_comp st2)" for a
  proof -
    from that obtain j where j: "j < length (all_comp st)" "a = length (heap st0) + j"
      unfolding all2 by (auto simp: nat_le_iff_add)
    define c where "c = read_order x st ! j"
    from each j have f: "forget_N (heap st2 ! a) = forget_N (reload (g_min_ew st0) c)"
      by (simp add: c_def)
    have "c \<in> set (read_order x st)"
      unfolding c_def by (rule nth_mem) (simp add: read_order_set j(1))
    then obtain b where "c = stripped (heap st ! b)"
      by (auto simp: read_order_set)
    then have "length (abslines c) \<le> length (mask_abslines c)"
      "length (abslines c) = length (mask_abslines c)"
      by (simp_all add: stripped_simps)
    with reload_lengths[of c "g_min_ew st0"] forget_N_fields(7,8)[OF f]
    show ?thesis by simp
  qed
  have "length (all_comp st2) = length (all_comp st)" by (simp add: all2)
  with w recs rd inv2
  show "\<exists>h doc st2 w.
          write_out st = (Returned, st\<lparr>heap := h\<rparr>, Some doc) \<and>
          (\<forall>kr \<in> set (f_cmps doc).
             map_option length (r_mask_abslines (snd kr))
               = map_option length (r_lines (snd kr))) \<and>
          read_previous x st0 doc = (Returned, st2, w) \<and>
          length (all_comp st2) = length (all_comp st) \<and>
          (\<forall>a \<in> set (all_comp st2).
             length (mask_abslines (heap st2 ! a)) = length (abslines (heap st2 ! a)))"
    by blast
qed

theorem mask_length_invariant_witness:
  "(\<exists>c. create_component ex_fmt5 0 1000 ex_catalog (-300, 300) = Inr c \<and>
        length (mask_abslines c) = length (abslines c)) \<and>
   length (mask_abslines (ex_comp [0, 2, 1])) = length (abslines (ex_comp [0, 2, 1])) \<and>
   (\<exists>c2. mask_comp_lines (ex_comp [0, 2, 1]) 0.005 = Inr c2 \<and>
         length (mask_abslines c2) = length (abslines c2)) \<and>
   (\<exists>h doc st2 w.
      write_out ex_two = (Returned, ex_two\<lparr>heap := h\<rparr>, Some doc) \<and>
      read_previous ex_x ex_fresh doc = (Returned, st2, w) \<and>
      length (all_comp st2) = 2 \<and>
      length (mask_abslines (heap st2 ! (all_comp st2 ! 0)))
        = length (abslines (heap st2 ! (all_comp st2 ! 0))))"
proof -
  have cat: "as_list (ex_catalog 1000) = [ex_tr, ex_tr\<lparr>t_wrest := 900, t_name := ''HI 900''\<rparr>]"
    by (simp add: as_list_def ex_catalog_def)
  from create_component_Cons[where ll = ex_catalog and w = 1000, OF cat, of ex_fmt5 0 "(-300, 300)"]
  obtain c where c: "create_component ex_fmt5 0 1000 ex_catalog (-300, 300) = Inr c"
    by blast
  note A = mask_length_invariant[of ex_fmt5 0 1000 ex_catalog "(-300, 300)" c
      "ex_comp [0, 2, 1]" "0.005" ex_two ex_fresh ex_x]
  note I1 = A[THEN conjunct1] and I2 = A[THEN conjunct2, THEN conjunct1]
    and I3 = A[THEN conjunct2, THEN conjunct2]
  from I1 c have P1: "\<exists>c. create_component ex_fmt5 0 1000 ex_catalog (-300, 300) = Inr c \<and>
        length (mask_abslines c) = length (abslines c)"
    by blast
  have inv: "length (mask_abslines (ex_comp [0, 2, 1])) = length (abslines (ex_comp [0, 2, 1]))"
    by (simp add: ex_comp_def)
  note P2 = I2[THEN mp, OF inv]
  have hyp: "(\<forall>a \<in> set (all_comp ex_two).
        length (mask_abslines (heap ex_two ! a)) = length (abslines (heap ex_two ! a))) \<and>
    distinct (map (\<lambda>a. name (heap ex_two ! a)) (all_comp ex_two)) \<and> all_comp ex_two \<noteq> [] \<and>
    g_fwhm ex_fresh = g_fwhm ex_two \<and>
    length (spec_bad_pixels ex_fresh) = length (spec_bad_pixels ex_two) \<and>
    all_comp ex_fresh = [] \<and> spec_wavelength ex_fresh \<noteq> []"
    by (intro conjI) (rule ex_two_hyps)+
  from I3[THEN mp, OF hyp] obtain h doc st2 w where r:
    "write_out ex_two = (Returned, ex_two\<lparr>heap := h\<rparr>, Some doc)"
    "\<forall>kr \<in> set (f_cmps doc).
             map_option length (r_mask_abslines (snd kr))
               = map_option length (r_lines (snd kr))"
    "read_previous ex_x ex_fresh doc = (Returned, st2, w)"
    "length (all_comp st2) = length (all_comp ex_two)"
    "\<forall>a \<in> set (all_comp st2).
             length (mask_abslines (heap st2 ! a)) = length (abslines (heap st2 ! a))"
    by (elim exE conjE)
  have two: "length (all_comp st2) = 2" using r(4) by (simp add: ex_two_session)
  then have "all_comp st2 ! 0 \<in> set (all_comp st2)" by simp
  with r(5) have "length (mask_abslines (heap st2 ! (all_comp st2 ! 0)))
        = length (abslines (heap st2 ! (all_comp st2 ! 0)))"
    by blast
  with r(1,3) two have P3: "\<exists>h doc st2 w.
      write_out ex_two = (Returned, ex_two\<lparr>heap := h\<rparr>, Some doc) \<and>
      read_previous ex_x ex_fresh doc = (Returned, st2, w) \<and>
      length (all_comp st2) = 2 \<and>
      length (mask_abslines (heap st2 ! (all_comp st2 ! 0)))
        = length (abslines (heap st2 ! (all_comp st2 ! 0)))"
    by blast
  from P1 inv P2 P3 show ?thesis by blast
qed

text \<open>
  Claim C5. When the FWHM of the document differs from the FWHM of the session,
  \<^verbatim>\<open>read_previous\<close> raises \<^verbatim>\<open>ValueError\<close> and the state is the one it was called
  in: no component was built and nothing was written. A differing spectrum file name
  only adds a warning: whenever reading returns for the document with the session's
  file name, it returns with the same state for the document with another name, and
  the warning is issued first.
\<close>

theorem read_previous_fwhm_check:
  "(f_fwhm doc \<noteq> g_fwhm st \<longrightarrow> read_previous x st doc = (Raised ValueError, st, [])) \<and>
   (f_spec_file doc \<noteq> spec_filename st \<and>
    read_previous x st (doc\<lparr>f_spec_file := spec_filename st\<rparr>) = (Returned, st', w)
    \<longrightarrow> read_previous x st doc
          = (Returned, st', ''Spec file names do not match! Could just be path..'' # w))"
proof (intro conjI impI)
  assume "f_fwhm doc \<noteq> g_fwhm st"
  then show "read_previous x st doc = (Raised ValueError, st, [])"
    by (simp add: read_previous_def)
next
  assume a: "f_spec_file doc \<noteq> spec_filename st \<and>
    read_previous x st (doc\<lparr>f_spec_file := spec_filename st\<rparr>) = (Returned, st', w)"
  then have ne: "spec_filename st \<noteq> f_spec_file doc"
    and ok: "read_previous x st (doc\<lparr>f_spec_file := spec_filename st\<rparr>) = (Returned, st', w)"
    by auto
  show "read_previous x st doc
          = (Returned, st', ''Spec file names do not match! Could just be path..'' # w)"
    using ok ne unfolding read_previous_def
    by (auto simp: Let_def split: if_splits sum.splits option.splits prod.splits outcome.splits)
qed

theorem read_previous_fwhm_check_witness:
  "f_fwhm ex_doc \<noteq> g_fwhm (ex_fresh\<lparr>g_fwhm := 2.5\<rparr>) \<and>
   read_previous ex_x (ex_fresh\<lparr>g_fwhm := 2.5\<rparr>) ex_doc
     = (Raised ValueError, ex_fresh\<lparr>g_fwhm := 2.5\<rparr>, []) \<and>
   f_spec_file (ex_doc\<lparr>f_spec_file := ''other.fits''\<rparr>) \<noteq> spec_filename ex_fresh \<and>
   (\<exists>st' w. read_previous ex_x ex_fresh ex_doc = (Returned, st', w) \<and>
            read_previous ex_x ex_fresh (ex_doc\<lparr>f_spec_file := ''other.fits''\<rparr>)
              = (Returned, st', ''Spec file names do not match! Could just be path..'' # w))"
proof -
  have f: "f_fwhm ex_doc \<noteq> g_fwhm (ex_fresh\<lparr>g_fwhm := 2.5\<rparr>)"
    by (simp add: ex_doc_def)
  from read_previous_fwhm_check[of ex_doc "ex_fresh\<lparr>g_fwhm := 2.5\<rparr>" ex_x] f
  have A: "read_previous ex_x (ex_fresh\<lparr>g_fwhm := 2.5\<rparr>) ex_doc
     = (Raised ValueError, ex_fresh\<lparr>g_fwhm := 2.5\<rparr>, [])"
    by blast
  from ex_roundtrip obtain st2 w where r: "read_previous ex_x ex_fresh ex_doc = (Returned, st2, w)"
    by blast
  have n: "f_spec_file (ex_doc\<lparr>f_spec_file := ''other.fits''\<rparr>) \<noteq> spec_filename ex_fresh"
    by (simp add: ex_fresh_session)
  have same_doc: "(ex_doc\<lparr>f_spec_file := ''other.fits''\<rparr>)\<lparr>f_spec_file := spec_filename ex_fresh\<rparr> = ex_doc"
    by (simp add: ex_fresh_session ex_doc_def)
  from read_previous_fwhm_check[of "ex_doc\<lparr>f_spec_file := ''other.fits''\<rparr>" ex_fresh ex_x st2 w]
    n r same_doc
  have "read_previous ex_x ex_fresh (ex_doc\<lparr>f_spec_file := ''other.fits''\<rparr>)
              = (Returned, st2, ''Spec file names do not match! Could just be path..'' # w)"
    by simp
  with r have B: "\<exists>st' w. read_previous ex_x ex_fresh ex_doc = (Returned, st', w) \<and>
            read_previous ex_x ex_fresh (ex_doc\<lparr>f_spec_file := ''other.fits''\<rparr>)
              = (Returned, st', ''Spec file names do not match! Could just be path..'' # w)"
    by blast
  from f A n B show ?thesis by blast
qed

text \<open>
  A document without components, read by a session that has no current component yet,
  ends in the \<^verbatim>\<open>AttributeError\<close> of \<^verbatim>\<open>self.velplot_widg.current_comp\<close>.
\<close>

lemma read_previous_no_components:
  "f_fwhm doc = g_fwhm st \<Longrightarrow> f_bad_pixels doc = None \<Longrightarrow> f_cmps doc = [] \<Longrightarrow>
   all_comp st = [] \<Longrightarrow> current_comp st = None \<Longrightarrow>
   fst (read_previous x st doc) = Raised AttributeError"
  by (simp add: read_previous_def dict_items_def update_model_def Let_def)

end
